theory Spec2Isabelle
  imports Main "HOL-Library.Word"
begin

section \<open>Conventions\<close>

text \<open>
  This theory embeds the conversion pipeline of \<^verbatim>\<open>bind-to-tinydns.c\<close>.
  A C string is a \<open>string\<close> without the terminating NUL. A byte is a \<open>char\<close>, read as a
  value in \<open>0..255\<close>: plain \<^verbatim>\<open>char\<close> is taken as unsigned (where it is signed, the bytes
  from \<open>0x80\<close> on reach \<^verbatim>\<open>isprint\<close> and \<^verbatim>\<open>%o\<close> as negative numbers, which the model
  does not follow). \<^verbatim>\<open>unsigned int\<close> is a 32-bit word, so its arithmetic wraps. The
  \<^verbatim>\<open>int\<close> values that the source reads from digits (the range and the templates of
  \<^verbatim>\<open>$GENERATE\<close>, the octets of an address) are unbounded numbers: their overflow is
  undefined in C.
  A function that reports failure through a return code returns a sum whose left
  summand names the failure; a call of \<^verbatim>\<open>fatal\<close>, which ends the process with status 1,
  is a left summand of the tokenizer's and of the driver's result.
\<close>

type_synonym uint = "32 word"

definition is_digit :: "char \<Rightarrow> bool" where
  "is_digit c = (48 \<le> (of_char c :: nat) \<and> (of_char c :: nat) \<le> 57)"

definition digit_val :: "char \<Rightarrow> nat" where
  "digit_val c = of_char c - 48"

section \<open>NumericParser: \<^verbatim>\<open>str_to_uint\<close>\<close>

text \<open>
  The three ways \<^verbatim>\<open>str_to_uint\<close> sets \<^verbatim>\<open>*ret = 1\<close>. The first and the last
  print a warning, the second is silent.
\<close>

datatype uint_err = Empty_string | Not_number | Unfinished_time

text \<open>The multiplier the source applies to \<^verbatim>\<open>part\<close> for each unit letter.\<close>

definition time_unit :: "char \<Rightarrow> uint option" where
  "time_unit c =
     (if c = CHR ''w'' \<or> c = CHR ''W'' then Some (86400 * 7)
      else if c = CHR ''d'' \<or> c = CHR ''D'' then Some 86400
      else if c = CHR ''h'' \<or> c = CHR ''H'' then Some (60 * 60)
      else if c = CHR ''m'' \<or> c = CHR ''M'' then Some 60
      else if c = CHR ''s'' \<or> c = CHR ''S'' then Some 1
      else None)"

text \<open>The body of the \<^verbatim>\<open>for\<close> loop, with the four locals as arguments.\<close>

fun str_to_uint_loop ::
  "string \<Rightarrow> bool \<Rightarrow> bool \<Rightarrow> bool \<Rightarrow> uint \<Rightarrow> uint \<Rightarrow> uint_err + uint" where
  "str_to_uint_loop [] allow_time_fmt in_time_fmt in_part tot part =
     (if in_time_fmt \<and> in_part then Inl Unfinished_time
      else Inr (if \<not> in_time_fmt then part else tot))"
| "str_to_uint_loop (c # cs) allow_time_fmt in_time_fmt in_part tot part =
     (if is_digit c
      then str_to_uint_loop cs allow_time_fmt in_time_fmt True tot
             (part * 10 + of_nat (digit_val c))
      else if \<not> allow_time_fmt \<or> \<not> in_part then Inl Not_number
      else (case time_unit c of
              None \<Rightarrow> Inl Not_number
            | Some u \<Rightarrow> str_to_uint_loop cs allow_time_fmt True False (tot + part * u) 0))"

definition str_to_uint :: "string \<Rightarrow> bool \<Rightarrow> uint_err + uint" where
  "str_to_uint s allow_time_fmt =
     (if s = [] then Inl Empty_string
      else str_to_uint_loop s allow_time_fmt False False 0 0)"

subsection \<open>The duration syntax as the specification words it\<close>

text \<open>
  A duration is a sequence of runs, each a string of digits and a unit letter. The
  following definitions follow the specification, not the source: the value of a unit
  in seconds, the decimal value of a digit string, and the sum over the runs.
\<close>

definition spec_unit_seconds :: "char \<Rightarrow> nat" where
  "spec_unit_seconds u =
     (if u \<in> {CHR ''w'', CHR ''W''} then 604800
      else if u \<in> {CHR ''d'', CHR ''D''} then 86400
      else if u \<in> {CHR ''h'', CHR ''H''} then 3600
      else if u \<in> {CHR ''m'', CHR ''M''} then 60
      else 1)"

definition spec_decimal :: "string \<Rightarrow> nat" where
  "spec_decimal ds = foldl (\<lambda>n c. 10 * n + digit_val c) 0 ds"

definition spec_duration :: "(string \<times> char) list \<Rightarrow> nat" where
  "spec_duration runs = (\<Sum>(ds, u) \<leftarrow> runs. spec_decimal ds * spec_unit_seconds u)"

definition duration_text :: "(string \<times> char) list \<Rightarrow> string" where
  "duration_text runs = concat (map (\<lambda>(ds, u). ds @ [u]) runs)"

definition duration_run :: "string \<times> char \<Rightarrow> bool" where
  "duration_run r = (fst r \<noteq> [] \<and> list_all is_digit (fst r) \<and> snd r \<in> set ''wdhmsWDHMS'')"

section \<open>StringSanitizer: \<^verbatim>\<open>sanitize_string\<close>\<close>

text \<open>
  The limits of the source. \<^verbatim>\<open>DOMAIN_STR_LEN\<close> is the size of the text buffer of a
  \<^verbatim>\<open>string\<close>: four bytes for each of the 255 characters and the NUL.
\<close>

definition LINE_LEN :: nat where "LINE_LEN = 8192"
definition DOMAIN_LEN :: nat where "DOMAIN_LEN = 255"
definition MAX_TOKENS :: nat where "MAX_TOKENS = 32"
definition MAX_PAREN :: nat where "MAX_PAREN = 3"
definition MAX_GEN_PARTS :: nat where "MAX_GEN_PARTS = 10"
definition DEFAULT_TTL :: uint where "DEFAULT_TTL = 86400"
definition DOMAIN_STR_LEN :: nat where "DOMAIN_STR_LEN = DOMAIN_LEN * 4 + 1"

text \<open>
  The \<^verbatim>\<open>struct string\<close> of the source: the encoded text, the number of characters it
  stands for (\<open>len\<close>) and the number of bytes of the encoding (\<open>real_len\<close>).
\<close>

record string_t =
  stext :: string
  len :: nat
  real_len :: nat

text \<open>
  \<^verbatim>\<open>isprint\<close> in the C locale (the program never sets another one): the bytes
  \<open>0x20\<close> to \<open>0x7e\<close>. The backslash is \<open>CHR 0x5C\<close>.
\<close>

definition is_print :: "char \<Rightarrow> bool" where
  "is_print c = (32 \<le> (of_char c :: nat) \<and> (of_char c :: nat) \<le> 126)"

definition backslash :: char where
  "backslash = CHR 0x5C"

text \<open>
  What \<^verbatim>\<open>sprintf (p, "\\%03o", v)\<close> writes for a byte value \<open>v\<close> below 256: the
  backslash and three octal digits.
\<close>

definition octal_digit :: "nat \<Rightarrow> char" where
  "octal_digit n = char_of (48 + n)"

definition octal_escape :: "nat \<Rightarrow> string" where
  "octal_escape v = [backslash, octal_digit (v div 64 mod 8), octal_digit (v div 8 mod 8), octal_digit (v mod 8)]"

text \<open>The two ways the loop extends \<^verbatim>\<open>temp\<close>: one byte, or one escape of four bytes.\<close>

definition put_char :: "char \<Rightarrow> string_t \<Rightarrow> string_t" where
  "put_char c temp = \<lparr>stext = stext temp @ [c], len = len temp + 1, real_len = real_len temp + 1\<rparr>"

definition put_escape :: "nat \<Rightarrow> string_t \<Rightarrow> string_t" where
  "put_escape v temp =
     \<lparr>stext = stext temp @ octal_escape v, len = len temp + 1, real_len = real_len temp + 4\<rparr>"

text \<open>The four warnings after which \<^verbatim>\<open>sanitize_string\<close> returns 1.\<close>

datatype san_err = Src_too_long | No_escaped_char | Decimal_too_large | Malformed_decimal

definition plain_byte :: "char \<Rightarrow> bool" where
  "plain_byte c = (is_print c \<and> c \<noteq> CHR '':'' \<and> c \<noteq> CHR ''.'' \<and> c \<noteq> backslash)"

fun sanitize_loop :: "string \<Rightarrow> string_t \<Rightarrow> san_err + string_t" where
  "sanitize_loop [] temp = Inr temp"
| "sanitize_loop (c # cs) temp =
     (if len temp = DOMAIN_LEN then Inl Src_too_long
      else if is_print c \<and> c \<noteq> backslash \<and> c \<noteq> CHR '':''
      then sanitize_loop cs (put_char c temp)
      else if c = backslash then
        (case cs of
           [] \<Rightarrow> Inl No_escaped_char
         | d # ds \<Rightarrow>
             if \<not> is_digit d then
               (if d = CHR '':'' \<or> d = backslash \<or> d = CHR ''.'' \<or> \<not> is_print d
                then sanitize_loop ds (put_escape (of_char d) temp)
                else sanitize_loop ds (put_char d temp))
             else
               (case ds of
                  e # f # fs \<Rightarrow>
                    if is_digit e \<and> is_digit f then
                      (let num = digit_val d * 100 + digit_val e * 10 + digit_val f in
                       if num > 255 then Inl Decimal_too_large
                       else if plain_byte (char_of num)
                       then sanitize_loop fs (put_char (char_of num) temp)
                       else sanitize_loop fs (put_escape num temp))
                    else Inl Malformed_decimal
                | _ \<Rightarrow> Inl Malformed_decimal))
      else sanitize_loop cs (put_escape (of_char c) temp))"

definition empty_string_t :: string_t where
  "empty_string_t = \<lparr>stext = [], len = 0, real_len = 0\<rparr>"

definition sanitize_string :: "string \<Rightarrow> san_err + string_t" where
  "sanitize_string src = sanitize_loop src empty_string_t"

subsection \<open>Notions used to state the sanitizer's properties\<close>

text \<open>
  A byte that the first branch of the loop copies as it is.
\<close>

definition verbatim_byte :: "char \<Rightarrow> bool" where
  "verbatim_byte c = (is_print c \<and> c \<noteq> backslash \<and> c \<noteq> CHR '':'')"

text \<open>
  Every iteration of the loop that does not fail adds one \<^emph>\<open>atom\<close> to \<^verbatim>\<open>temp\<close>: a byte
  copied as it is, or the octal escape of a byte value. \<open>render\<close> is the encoded text of
  a list of atoms, \<open>extend_by\<close> is \<^verbatim>\<open>temp\<close> after these atoms were added, and
  \<open>atoms_from t s\<close> says that \<open>s\<close> is \<open>t\<close> extended by some atoms.
\<close>

datatype atom = Plain char | Escape nat

definition atom_text :: "atom \<Rightarrow> string" where
  "atom_text a = (case a of Plain c \<Rightarrow> [c] | Escape v \<Rightarrow> octal_escape v)"

definition atom_ok :: "atom \<Rightarrow> bool" where
  "atom_ok a = (case a of Plain c \<Rightarrow> verbatim_byte c | Escape v \<Rightarrow> v < 256)"

definition atom_low :: "atom \<Rightarrow> bool" where
  "atom_low a = (case a of Plain c \<Rightarrow> True | Escape v \<Rightarrow> v < 8)"

definition render :: "atom list \<Rightarrow> string" where
  "render as = concat (map atom_text as)"

definition extend_by :: "atom list \<Rightarrow> string_t \<Rightarrow> string_t" where
  "extend_by as t =
     \<lparr>stext = stext t @ render as, len = len t + length as,
      real_len = real_len t + length (render as)\<rparr>"

definition atoms_from :: "string_t \<Rightarrow> string_t \<Rightarrow> bool" where
  "atoms_from t s = (\<exists>as. list_all atom_ok as \<and> s = extend_by as t)"

text \<open>
  An encoded text in which every backslash is followed by \<^verbatim>\<open>00\<close> and one more byte:
  all its escapes are among \<^verbatim>\<open>\000\<close> to \<^verbatim>\<open>\007\<close>, the only ones that denote the
  same byte read in octal and in decimal. A text without a backslash is one of them.
\<close>

fun low_escapes :: "string \<Rightarrow> bool" where
  "low_escapes [] = True"
| "low_escapes (c # cs) =
     (if c = backslash
      then (case cs of
              a # b # d # rest \<Rightarrow> a = CHR ''0'' \<and> b = CHR ''0'' \<and> low_escapes rest
            | _ \<Rightarrow> False)
      else low_escapes cs)"

text \<open>
  The value that the loop computes when it reads the octal escape of \<open>v\<close>: the three
  octal digits taken as a decimal number.
\<close>

definition decimal_reading :: "nat \<Rightarrow> nat" where
  "decimal_reading v = (v div 64 mod 8) * 100 + (v div 8 mod 8) * 10 + v mod 8"

text \<open>
  The invariant of a \<^verbatim>\<open>string\<close> that the sanitizer and the qualifier maintain.
\<close>

definition string_inv :: "string_t \<Rightarrow> bool" where
  "string_inv t =
     (real_len t = length (stext t) \<and> len t \<le> real_len t \<and> real_len t \<le> 4 * len t \<and>
      len t \<le> DOMAIN_LEN)"

section \<open>DomainQualifier: \<^verbatim>\<open>qualify_domain\<close>\<close>

text \<open>The warnings after which \<^verbatim>\<open>qualify_domain\<close> returns 1, in the order of the source.\<close>

datatype qual_err =
    Unsanitizable san_err
  | Empty_label
  | At_without_origin
  | Relative_without_origin
  | Name_too_long
  | Name_plus_origin_too_long
  | Both_empty

text \<open>\<^verbatim>\<open>strstr (s, "..")\<close> finds something.\<close>

fun has_dotdot :: "string \<Rightarrow> bool" where
  "has_dotdot (a # b # cs) = ((a = CHR ''.'' \<and> b = CHR ''.'') \<or> has_dotdot (b # cs))"
| "has_dotdot _ = False"

text \<open>\<^verbatim>\<open>!origin || !origin->len\<close>: the origin is a null pointer, or empty.\<close>

definition origin_missing :: "string_t option \<Rightarrow> bool" where
  "origin_missing origin = (case origin of None \<Rightarrow> True | Some og \<Rightarrow> len og = 0)"

definition leading_dot :: "string \<Rightarrow> bool" where
  "leading_dot s = (case s of a # b # cs \<Rightarrow> a = CHR ''.'' | _ \<Rightarrow> False)"

definition qualify_domain :: "string \<Rightarrow> string_t option \<Rightarrow> qual_err + string_t" where
  "qualify_domain name origin =
     (case sanitize_string name of
        Inl e \<Rightarrow> Inl (Unsanitizable e)
      | Inr sname \<Rightarrow>
          if len sname \<noteq> 0 then
            (if leading_dot (stext sname) then Inl Empty_label
             else if has_dotdot (stext sname) then Inl Empty_label
             else if stext sname = ''@'' then
               (if origin_missing origin then Inl At_without_origin else Inr (the origin))
             else if stext sname ! (real_len sname - 1) = CHR ''.'' then Inr sname
             else if origin_missing origin then Inl Relative_without_origin
             else if stext (the origin) = ''.'' then
               (if len sname + 1 > DOMAIN_LEN then Inl Name_too_long
                else Inr \<lparr>stext = stext sname @ ''.'',
                          len = len sname + 1,
                          real_len = real_len sname + 1\<rparr>)
             else
               (if len sname + 1 + len (the origin) > DOMAIN_LEN then Inl Name_plus_origin_too_long
                else Inr \<lparr>stext = stext sname @ ''.'' @ stext (the origin),
                          len = len sname + 1 + len (the origin),
                          real_len = real_len sname + 1 + real_len (the origin)\<rparr>))
          else
            (if origin_missing origin then Inl Both_empty else Inr (the origin)))"

text \<open>Two origins for the examples: the root, and \<^verbatim>\<open>example.com.\<close>\<close>

definition example_com :: string_t where
  "example_com = \<lparr>stext = ''example.com.'', len = 12, real_len = 12\<rparr>"

definition root_origin :: string_t where
  "root_origin = \<lparr>stext = ''.'', len = 1, real_len = 1\<rparr>"

section \<open>Tokenizer: \<^verbatim>\<open>tokenize\<close>\<close>

text \<open>
  How a run stops before its normal end. \<open>Fatal\<close> is a call of \<^verbatim>\<open>fatal\<close>, with the
  message and the line number it prints; the process exits with status 1 and the
  temporary file is removed. \<open>Undefined\<close> marks an access outside an array, which C
  leaves undefined. \<open>Hang\<close> is a loop that never exits. What the process had printed
  before it stopped is not kept.
\<close>

datatype halt = Fatal string int | Undefined string | Hang

definition NUL :: char where "NUL = CHR 0x00"
definition newline :: char where "newline = CHR 0x0A"
definition carriage_return :: char where "carriage_return = CHR 0x0D"
definition tab :: char where "tab = CHR 0x09"
definition dquote :: char where "dquote = CHR 0x22"

text \<open>The C string that starts at offset \<open>k\<close> of a buffer: the bytes before the next NUL.\<close>

definition c_string_at :: "string \<Rightarrow> nat \<Rightarrow> string" where
  "c_string_at mem k = takeWhile (\<lambda>c. c \<noteq> NUL) (drop k mem)"

text \<open>
  An entry of the \<^verbatim>\<open>token\<close> array: the static string \<^verbatim>\<open>blank_token\<close> (one space),
  or a pointer into \<^verbatim>\<open>line\<close>, kept as its offset.
\<close>

datatype tokref = Blank_token | At nat

definition token_str :: "string \<Rightarrow> tokref \<Rightarrow> string" where
  "token_str mem r = (case r of Blank_token \<Rightarrow> '' '' | At k \<Rightarrow> c_string_at mem k)"

text \<open>\<^verbatim>\<open>strcasecmp (a, b) == 0\<close> in the C locale.\<close>

definition to_lower :: "char \<Rightarrow> char" where
  "to_lower c = (if 65 \<le> (of_char c :: nat) \<and> (of_char c :: nat) \<le> 90
                 then char_of ((of_char c :: nat) + 32) else c)"

definition strcaseeq :: "string \<Rightarrow> string \<Rightarrow> bool" where
  "strcaseeq a b = (map to_lower a = map to_lower b)"

text \<open>
  The locals of \<^verbatim>\<open>tokenize\<close>. The field \<open>line\<close> holds \<^verbatim>\<open>line[0..i)\<close>, the part of the
  buffer the scan has passed, so that \<^verbatim>\<open>i\<close> is its length; \<open>token\<close> holds
  \<^verbatim>\<open>token[0..num_tokens)\<close>, so that \<^verbatim>\<open>num_tokens\<close> is its length.
\<close>

record tok_locals =
  line :: string
  token :: "tokref list"
  in_doublequote :: bool
  paren_level :: nat
  in_quote :: bool
  set_in_quote :: bool
  in_txt :: bool
  in_token :: bool
  found_nonblank_token :: bool

definition tok_init :: tok_locals where
  "tok_init = \<lparr>line = [], token = [], in_doublequote = False, paren_level = 0,
               in_quote = False, set_in_quote = False, in_txt = False, in_token = False,
               found_nonblank_token = False\<rparr>"

text \<open>Leave byte \<open>c\<close> at \<^verbatim>\<open>line[i]\<close> and go on to the next index.\<close>

definition put :: "char \<Rightarrow> tok_locals \<Rightarrow> tok_locals" where
  "put c s = s\<lparr>line := line s @ [c]\<rparr>"

text \<open>
  The head of the loop body, which keeps track of the backslash: \<^verbatim>\<open>set_in_quote\<close> is
  turned into \<^verbatim>\<open>in_quote\<close>, and an unescaped backslash sets \<^verbatim>\<open>set_in_quote\<close>.
\<close>

definition note_escape :: "char \<Rightarrow> tok_locals \<Rightarrow> tok_locals" where
  "note_escape c s0 =
     (let s1 = (if set_in_quote s0 then s0\<lparr>in_quote := True, set_in_quote := False\<rparr> else s0)
      in if c = backslash \<and> \<not> in_quote s1 then s1\<lparr>set_in_quote := True\<rparr> else s1)"

text \<open>
  One iteration of the inner \<^verbatim>\<open>for\<close> loop, on the byte \<open>c\<close> at \<^verbatim>\<open>line[i]\<close>:
  the loop goes on to the next byte (after \<^verbatim>\<open>continue\<close> or at the end of the body),
  is left by \<^verbatim>\<open>break\<close>, or the process stops. The comment character ends the loop
  without advancing \<^verbatim>\<open>i\<close>, so the next line is stored over it. The branch of the
  opening double quote stores into \<^verbatim>\<open>token[num_tokens]\<close> without the test against
  \<^verbatim>\<open>MAX_TOKENS\<close> that the last branch makes.
\<close>

datatype scan_step = Continue tok_locals | Break tok_locals | Stop halt

definition scan_char :: "char \<Rightarrow> tok_locals \<Rightarrow> int \<Rightarrow> scan_step" where
  "scan_char c s0 start =
     (if length (line s0) = LINE_LEN then Stop (Fatal ''entry too long'' start)
      else
        let s = note_escape c s0 in
        if in_quote s \<and> c \<noteq> newline then Continue (put c (s\<lparr>in_quote := False\<rparr>))
        else if in_doublequote s \<and> c \<noteq> dquote then Continue (put c s)
        else if c = CHR '';'' then Break (s\<lparr>in_token := False\<rparr>)
        else if c = CHR ''('' then
          (if paren_level s + 1 > MAX_PAREN
           then Stop (Fatal ''too many nested parentheses'' start)
           else Continue (put NUL (s\<lparr>in_token := False, paren_level := paren_level s + 1\<rparr>)))
        else if c = CHR '')'' then
          (if paren_level s = 0
           then Stop (Fatal ''missing opening parenthesis'' start)
           else Continue (put NUL (s\<lparr>in_token := False, paren_level := paren_level s - 1\<rparr>)))
        else if c = dquote then
          (if in_doublequote s
           then Continue (put NUL (s\<lparr>in_token := False, in_doublequote := False\<rparr>))
           else if \<not> in_txt s \<and>
                   (token s = [] \<or>
                    \<not> strcaseeq (token_str (line s @ [NUL]) (last (token s))) ''txt'')
           then Stop (Fatal ''improper use of double-quotes (can only be used for TXT rdata)''
                        start)
           else if length (token s) \<ge> MAX_TOKENS
           then Stop (Undefined ''token[num_tokens] is outside the array'')
           else Continue
                  (put NUL (s\<lparr>in_txt := True,
                              token := token s @ [At (length (line s) + 1)],
                              in_token := True, in_doublequote := True\<rparr>)))
        else if c = CHR '' '' \<or> c = tab then
          (if length (line s) = 0
           then Continue (put c (s\<lparr>token := token s @ [Blank_token]\<rparr>))
           else Continue (put NUL (s\<lparr>in_token := False\<rparr>)))
        else if c = newline \<or> c = carriage_return
        then Continue (put NUL (s\<lparr>in_token := False\<rparr>))
        else if \<not> in_token s then
          (if length (token s) \<ge> MAX_TOKENS
           then Stop (Fatal ''too many tokens in RR'' start)
           else Continue
                  (put c (s\<lparr>token := token s @ [At (length (line s))], in_token := True,
                            found_nonblank_token := True\<rparr>)))
        else Continue (put c s))"

text \<open>
  The inner \<^verbatim>\<open>for\<close> loop over the bytes that \<^verbatim>\<open>fgets\<close> has just stored, from
  \<^verbatim>\<open>line[i]\<close> to the NUL.
\<close>

fun scan_line :: "string \<Rightarrow> tok_locals \<Rightarrow> int \<Rightarrow> halt + tok_locals" where
  "scan_line [] s start = Inr s"
| "scan_line (c # cs) s start =
     (case scan_char c s start of
        Continue s' \<Rightarrow> scan_line cs s' start
      | Break s' \<Rightarrow> Inr s'
      | Stop e \<Rightarrow> Inl e)"

text \<open>
  \<^verbatim>\<open>fgets (buf, n, stdin)\<close> on the rest of the input: at most \<open>n - 1\<close> bytes, up
  to and with the first newline; \<open>None\<close> is the null pointer at the end of the input.
  With \<open>n = 1\<close> nothing can be read and the result is the empty string (the
  behaviour of glibc).
\<close>

fun read_chunk :: "nat \<Rightarrow> string \<Rightarrow> string \<times> string" where
  "read_chunk n [] = ([], [])"
| "read_chunk n (c # cs) =
     (if n = 0 then ([], c # cs)
      else if c = newline then ([c], cs)
      else (case read_chunk (n - 1) cs of (a, b) \<Rightarrow> (c # a, b)))"

definition fgets :: "nat \<Rightarrow> string \<Rightarrow> (string \<times> string) option" where
  "fgets n inp =
     (if n \<le> 1 then Some ([], inp)
      else if inp = [] then None
      else Some (read_chunk (n - 1) inp))"

text \<open>
  What \<^verbatim>\<open>tokenize\<close> reads and writes outside its locals: the rest of the standard
  input, the globals \<^verbatim>\<open>line_num\<close> and \<^verbatim>\<open>start_line_num\<close>, and the warnings printed
  so far, each with the line number given to \<^verbatim>\<open>warning\<close>. A call of \<^verbatim>\<open>fatal\<close> in the
  tokenizer or the driver passes \<^verbatim>\<open>start_line_num\<close>.
\<close>

record io =
  stdin :: string
  line_num :: int
  start_line_num :: int
  diag :: "(string \<times> int) list"

definition warning :: "string \<Rightarrow> int \<Rightarrow> 'a io_scheme \<Rightarrow> 'a io_scheme" where
  "warning message line_number w = w\<lparr>diag := diag w @ [(message, line_number)]\<rparr>"

definition fatal :: "string \<Rightarrow> 'a io_scheme \<Rightarrow> halt + 'b" where
  "fatal message w = Inl (Fatal message (start_line_num w))"

definition end_of_line_warnings :: "tok_locals \<Rightarrow> 'a io_scheme \<Rightarrow> 'a io_scheme" where
  "end_of_line_warnings s w =
     (let w1 = (if in_quote s
                then warning ''hanging backslash at end of line; pretending it was terminated''
                       (start_line_num w) w
                else w)
      in if in_doublequote s
         then warning ''open doublequoted string at end of line; pretending it was closed''
                (start_line_num w1) w1
         else w1)"

lemma read_chunk_length:
  "read_chunk n inp = (a, b) \<Longrightarrow> length a + length b = length inp"
proof (induction inp arbitrary: n a b)
  case Nil
  then show ?case by simp
next
  case (Cons c cs)
  show ?case
  proof (cases "n = 0 \<or> c = newline")
    case True
    with Cons.prems show ?thesis by (auto split: if_splits)
  next
    case False
    obtain a' b' where r: "read_chunk (n - 1) cs = (a', b')"
      by (cases "read_chunk (n - 1) cs")
    with False Cons.prems have "a = c # a'" and "b = b'" by simp_all
    with Cons.IH [OF r] show ?thesis by simp
  qed
qed

lemma fgets_consumes:
  "fgets n inp = Some (chunk, rest) \<Longrightarrow> chunk \<noteq> [] \<Longrightarrow> length rest < length inp"
proof -
  assume a: "fgets n inp = Some (chunk, rest)" and c: "chunk \<noteq> []"
  from a c have "read_chunk (n - 1) inp = (chunk, rest)"
    by (auto simp: fgets_def split: if_splits)
  from read_chunk_length [OF this] c show ?thesis by (cases chunk) auto
qed

text \<open>
  The \<^verbatim>\<open>do ... while (paren_level)\<close> loop. The result \<open>None\<close> is the return value
  \<open>-1\<close>; \<open>Some ts\<close> is the token array up to the returned count. When
  \<^verbatim>\<open>fgets\<close> is called with room for no byte, nothing changes between two iterations
  but \<^verbatim>\<open>line_num\<close> and the warnings, and the loop never exits.
\<close>

function tokenize_loop ::
  "tok_locals \<Rightarrow> 'a io_scheme \<Rightarrow> halt + (string list option \<times> 'a io_scheme)" where
  "tokenize_loop s w =
     (case fgets (LINE_LEN + 1 - length (line s)) (stdin w) of
        None \<Rightarrow> Inr (None, w)
      | Some (chunk, rest) \<Rightarrow>
          (case scan_line (takeWhile (\<lambda>c. c \<noteq> NUL) chunk) s (start_line_num w) of
             Inl e \<Rightarrow> Inl e
           | Inr s' \<Rightarrow>
               let w' = (end_of_line_warnings s' (w\<lparr>stdin := rest\<rparr>))
                          \<lparr>line_num := line_num w + 1\<rparr>
               in
               if paren_level s' \<noteq> 0
               then (if chunk = [] then Inl Hang else tokenize_loop s' w')
               else if paren_level s' \<noteq> 0
               then fatal ''open parentheses at end of file'' w'
               else Inr (Some (if found_nonblank_token s'
                               then map (token_str (line s' @ [NUL])) (token s')
                               else []), w')))"
  by pat_completeness auto
termination
  by (relation "measure (\<lambda>(s, w). length (stdin w))")
     (auto dest: fgets_consumes simp: end_of_line_warnings_def warning_def Let_def)

declare tokenize_loop.simps [simp del]

definition tokenize :: "'a io_scheme \<Rightarrow> halt + (string list option \<times> 'a io_scheme)" where
  "tokenize w = tokenize_loop tok_init (w\<lparr>start_line_num := line_num w\<rparr>)"

subsection \<open>Notions used to state the tokenizer's properties\<close>



definition after_a_txt :: tok_locals where
  "after_a_txt = tok_init\<lparr>line := ''a'' @ [NUL] @ ''TXT'' @ [NUL], token := [At 0, At 2],
                           found_nonblank_token := True\<rparr>"

definition after_txt_a :: tok_locals where
  "after_txt_a = tok_init\<lparr>line := ''TXT'' @ [NUL] @ ''a'' @ [NUL], token := [At 0, At 4],
                           found_nonblank_token := True\<rparr>"

section \<open>Output formats of \<^verbatim>\<open>printf\<close>\<close>

text \<open>
  The conversions the program uses. \<^verbatim>\<open>%u\<close> prints an \<^verbatim>\<open>unsigned int\<close> in
  decimal; \<^verbatim>\<open>%d\<close> is also given \<^verbatim>\<open>unsigned int\<close> values and prints them as the
  signed number with the same 32 bits; \<^verbatim>\<open>%03o\<close> prints at least three octal digits.
\<close>

definition digit_char :: "bool \<Rightarrow> nat \<Rightarrow> char" where
  "digit_char upper n =
     (if n < 10 then char_of (48 + n) else char_of ((if upper then 55 else 87) + n))"

function show_base :: "nat \<Rightarrow> bool \<Rightarrow> nat \<Rightarrow> string" where
  "show_base b upper n =
     (if b < 2 \<or> n < b then [digit_char upper n]
      else show_base b upper (n div b) @ [digit_char upper (n mod b)])"
  by pat_completeness auto
termination
  by (relation "measure (\<lambda>(b, upper, n). n)") auto

declare show_base.simps [simp del]

definition show_nat :: "nat \<Rightarrow> string" where
  "show_nat n = show_base 10 False n"

definition show_int :: "int \<Rightarrow> string" where
  "show_int v = (if v < 0 then CHR ''-'' # show_nat (nat (- v)) else show_nat (nat v))"

definition zero_pad :: "nat \<Rightarrow> string \<Rightarrow> string" where
  "zero_pad w s = replicate (w - length s) CHR ''0'' @ s"

definition printf_u :: "uint \<Rightarrow> string" where
  "printf_u v = show_nat (unat v)"

definition printf_d :: "uint \<Rightarrow> string" where
  "printf_d v = show_int (sint v)"

definition printf_03o :: "nat \<Rightarrow> string" where
  "printf_03o n = zero_pad 3 (show_base 8 False n)"

text \<open>
  The format \<^verbatim>\<open>%0<width><base>\<close> that \<^verbatim>\<open>construct_gen_output\<close> builds, applied to
  an \<^verbatim>\<open>int\<close>: \<^verbatim>\<open>d\<close> is signed, and the sign counts in the width; \<^verbatim>\<open>o\<close>, \<^verbatim>\<open>x\<close> and
  \<^verbatim>\<open>X\<close> print the value as a 32-bit unsigned number.
\<close>

definition printf_gen :: "nat \<Rightarrow> char \<Rightarrow> int \<Rightarrow> string" where
  "printf_gen width base v =
     (if base = CHR ''d'' then
        (if v < 0 then CHR ''-'' # zero_pad (width - 1) (show_nat (nat (- v)))
         else zero_pad width (show_nat (nat v)))
      else if base = CHR ''o'' then zero_pad width (show_base 8 False (nat (v mod 2 ^ 32)))
      else if base = CHR ''x'' then zero_pad width (show_base 16 False (nat (v mod 2 ^ 32)))
      else zero_pad width (show_base 16 True (nat (v mod 2 ^ 32))))"

section \<open>GenerateExpander: \<^verbatim>\<open>parse_gen_string\<close> and \<^verbatim>\<open>construct_gen_output\<close>\<close>

text \<open>
  A part of a template: a literal (a non-null entry of \<^verbatim>\<open>parts\<close>, the text from
  that pointer to the next NUL), or a placeholder (a null entry, with its offset, width
  and base). The \<^verbatim>\<open>int\<close> values of the templates and ranges are kept as unbounded
  numbers: their overflow is undefined in C.
\<close>

datatype gen_part = Literal string | Placeholder int nat char

text \<open>
  The loop \<^verbatim>\<open>for (found = 0; *ptr >= '0' && *ptr <= '9'; ptr++)\<close> that reads a decimal
  number: the value, whether a digit was found, and the rest.
\<close>

fun scan_number :: "string \<Rightarrow> nat \<Rightarrow> bool \<Rightarrow> nat \<times> bool \<times> string" where
  "scan_number [] acc found = (acc, found, [])"
| "scan_number (c # cs) acc found =
     (if is_digit c then scan_number cs (acc * 10 + digit_val c) True
      else (acc, found, c # cs))"

text \<open>
  The block after a placeholder's \<^verbatim>\<open>$\<close>, given the text that follows the \<^verbatim>\<open>$\<close>:
  the offset, width and base, and the text after the placeholder. \<open>next_is\<close> tests the
  byte at the pointer, which is the NUL at the end of the text.
\<close>

definition next_is :: "string \<Rightarrow> char \<Rightarrow> bool" where
  "next_is s c = (case s of [] \<Rightarrow> False | d # _ \<Rightarrow> d = c)"

definition gen_braces :: "string \<Rightarrow> int \<Rightarrow> halt + ((int \<times> nat \<times> char) \<times> string)" where
  "gen_braces cs start =
     (if next_is cs CHR ''{'' then
        (let r = tl cs;
             neg = next_is r CHR ''-'';
             r1 = (if neg then tl r else r)
         in case scan_number r1 0 False of (off, found, r2) \<Rightarrow>
           let offset = (if neg then - int off else int off) in
           if \<not> found \<or> (\<not> next_is r2 CHR '','' \<and> \<not> next_is r2 CHR ''}'')
           then Inl (Fatal ''parse error in $GENERATE curly braces (at offset)'' start)
           else if next_is r2 CHR ''}'' then Inr ((offset, 0, CHR ''d''), tl r2)
           else
             (case scan_number (tl r2) 0 False of (wid, found', r3) \<Rightarrow>
                if \<not> found' \<or> (\<not> next_is r3 CHR '','' \<and> \<not> next_is r3 CHR ''}'')
                then Inl (Fatal ''parse error in $GENERATE curly braces (at width)''
                            start)
                else if next_is r3 CHR ''}'' then Inr ((offset, wid, CHR ''d''), tl r3)
                else
                  (let r4 = tl r3 in
                   if \<not> next_is r4 CHR ''d'' \<and> \<not> next_is r4 CHR ''o'' \<and>
                      \<not> next_is r4 CHR ''x'' \<and> \<not> next_is r4 CHR ''X''
                   then Inl (Fatal ''$GENERATE has invalid base'' start)
                   else if \<not> next_is (tl r4) CHR ''}''
                   then Inl (Fatal ''parse error in $GENERATE (curly braces not closed after base)''
                               start)
                   else Inr ((offset, wid, hd r4), tl (tl r4)))))
      else Inr ((0, 0, CHR ''d''), cs))"

lemma scan_number_length:
  "scan_number cs acc found = (v, f, r) \<Longrightarrow> length r \<le> length cs"
proof (induction cs arbitrary: acc found)
  case Nil
  then show ?case by simp
next
  case (Cons c cs)
  show ?case
  proof (cases "is_digit c")
    case True
    with Cons.prems have "scan_number cs (acc * 10 + digit_val c) True = (v, f, r)" by simp
    from Cons.IH [OF this] show ?thesis by simp
  next
    case False
    with Cons.prems show ?thesis by simp
  qed
qed

lemma gen_braces_length:
  assumes "gen_braces cs n = Inr (p, r)"
  shows "length r \<le> length cs"
proof (cases "next_is cs CHR ''{''")
  case False
  with assms show ?thesis by (simp add: gen_braces_def)
next
  case True
  define r1 where "r1 = (if next_is (tl cs) CHR ''-'' then tl (tl cs) else tl cs)"
  obtain off found r2 where s1: "scan_number r1 0 False = (off, found, r2)"
    by (cases "scan_number r1 0 False")
  obtain wid found' r3 where s2: "scan_number (tl r2) 0 False = (wid, found', r3)"
    by (cases "scan_number (tl r2) 0 False")
  have l1: "length r1 \<le> length cs" by (simp add: r1_def)
  have l2: "length r2 \<le> length cs" using scan_number_length [OF s1] l1 by simp
  have l3: "length r3 \<le> length cs" using scan_number_length [OF s2] l2 by simp
  from assms True s1 s2 have "r = tl r2 \<or> r = tl r3 \<or> r = tl (tl (tl r3))"
    by (auto simp: gen_braces_def Let_def r1_def split: if_splits)
  with l2 l3 show ?thesis by auto
qed

text \<open>
  The loop of \<^verbatim>\<open>parse_gen_string\<close>. \<open>parts\<close> holds \<^verbatim>\<open>parts[0..*num_parts - 1)\<close>; the
  last entry of the array is the literal that is being read, whose text so far is \<open>cur\<close>
  (it is empty exactly when \<^verbatim>\<open>parts[*num_parts-1] == ptr\<close>). The two bytes \<^verbatim>\<open>$$\<close> are
  skipped and stay in the literal, as an escaped byte and its backslash do.
\<close>

function parse_gen_loop ::
  "string \<Rightarrow> bool \<Rightarrow> gen_part list \<Rightarrow> string \<Rightarrow> int \<Rightarrow> halt + gen_part list" where
  "parse_gen_loop [] in_quote' parts cur start = Inr (parts @ [Literal cur])"
| "parse_gen_loop (c # cs) in_quote' parts cur start =
     (if in_quote' then parse_gen_loop cs False parts (cur @ [c]) start
      else if c = backslash then parse_gen_loop cs True parts (cur @ [c]) start
      else if c = CHR ''$'' then
        (if next_is cs CHR ''$''
         then parse_gen_loop (tl cs) False parts (cur @ [c, CHR ''$'']) start
         else if length parts + 1 \<ge> MAX_GEN_PARTS
         then Inl (Fatal ''$GENERATE directive has too many parts'' start)
         else
           (let parts1 = (if cur = [] then parts else parts @ [Literal cur]) in
            case gen_braces cs start of
              Inl e \<Rightarrow> Inl e
            | Inr ((offset, width, base), rest) \<Rightarrow>
                let parts2 = parts1 @ [Placeholder offset width base] in
                if rest = [] then Inr parts2
                else if length parts2 \<ge> MAX_GEN_PARTS
                then Inl (Fatal ''$GENERATE directive has too many parts'' start)
                else parse_gen_loop rest False parts2 [] start))
      else parse_gen_loop cs False parts (cur @ [c]) start)"
  by pat_completeness auto
termination
  by (relation "measure (\<lambda>(s, q, parts, cur, n). length s)")
     (auto dest: gen_braces_length simp: next_is_def split: list.splits)

definition parse_gen_string :: "string \<Rightarrow> int \<Rightarrow> halt + gen_part list" where
  "parse_gen_string line' start = parse_gen_loop line' False [] [] start"

text \<open>
  \<^verbatim>\<open>construct_gen_output\<close>: \<open>dest\<close> is what has been written and \<open>pos\<close> is
  \<^verbatim>\<open>ptr - dest\<close>. \<^verbatim>\<open>snprintf\<close> stores at most one byte less than the room it is
  given and returns the length of the whole text.
\<close>

definition gen_part_text :: "gen_part \<Rightarrow> int \<Rightarrow> string" where
  "gen_part_text p iter =
     (case p of Literal s \<Rightarrow> s
      | Placeholder offset width base \<Rightarrow> printf_gen width base (iter + offset))"

fun construct_gen_loop :: "gen_part list \<Rightarrow> int \<Rightarrow> string \<Rightarrow> nat \<Rightarrow> int \<Rightarrow> halt + string" where
  "construct_gen_loop [] iter dest pos start = Inr dest"
| "construct_gen_loop (p # ps) iter dest pos start =
     (let s = gen_part_text p iter; ret = length s in
      if pos + ret > DOMAIN_STR_LEN
      then Inl (Fatal ''$GENERATE directive constructed a token that was too long''
                  start)
      else construct_gen_loop ps iter (dest @ take (DOMAIN_STR_LEN - pos - 1) s) (pos + ret)
             start)"

definition construct_gen_output :: "gen_part list \<Rightarrow> int \<Rightarrow> int \<Rightarrow> halt + string" where
  "construct_gen_output parts iter start =
     construct_gen_loop parts iter [] 0 start"

subsection \<open>Notions used to state the expander's properties\<close>

text \<open>
  What the loop of \<^verbatim>\<open>parse_gen_string\<close> keeps of its state: the parts found so far
  stay at the front of the result, and the literal that is being read, if it is not
  empty, is the beginning of the part that follows them.
\<close>

definition keeps_literal :: "gen_part list \<Rightarrow> string \<Rightarrow> gen_part list \<Rightarrow> bool" where
  "keeps_literal parts cur ps =
     ((\<exists>tail. ps = parts @ tail) \<and>
      (cur = [] \<or> (\<exists>x tail. ps = parts @ Literal (cur @ x) # tail)))"

section \<open>IPSanitizer: \<^verbatim>\<open>sanitize_ip\<close>\<close>

text \<open>
  \<^verbatim>\<open>strchr (src, '.')\<close>: the text before the first dot and the text after it. The
  \<^verbatim>\<open>int total\<close> of an octet is kept as an unbounded number.
\<close>

definition split_dot :: "string \<Rightarrow> (string \<times> string) option" where
  "split_dot src =
     (if CHR ''.'' \<in> set src
      then Some (takeWhile (\<lambda>c. c \<noteq> CHR ''.'') src, tl (dropWhile (\<lambda>c. c \<noteq> CHR ''.'') src))
      else None)"

fun ip_octet_loop :: "string \<Rightarrow> nat \<Rightarrow> nat option" where
  "ip_octet_loop [] tot = Some tot"
| "ip_octet_loop (c # cs) tot =
     (if is_digit c then ip_octet_loop cs (tot * 10 + digit_val c) else None)"

definition ip_octet :: "string \<Rightarrow> string option" where
  "ip_octet s =
     (if s = [] then None
      else case ip_octet_loop s 0 of
             None \<Rightarrow> None
           | Some tot \<Rightarrow> if tot > 255 then None else Some (show_nat tot))"

definition sanitize_ip :: "string \<Rightarrow> string option" where
  "sanitize_ip src =
     (case split_dot src of None \<Rightarrow> None | Some (s0, r0) \<Rightarrow>
      case ip_octet s0 of None \<Rightarrow> None | Some o0 \<Rightarrow>
      case split_dot r0 of None \<Rightarrow> None | Some (s1, r1) \<Rightarrow>
      case ip_octet s1 of None \<Rightarrow> None | Some o1 \<Rightarrow>
      case split_dot r1 of None \<Rightarrow> None | Some (s2, r2) \<Rightarrow>
      case ip_octet s2 of None \<Rightarrow> None | Some o2 \<Rightarrow>
      case ip_octet r2 of None \<Rightarrow> None | Some o3 \<Rightarrow>
        Some (o0 @ ''.'' @ o1 @ ''.'' @ o2 @ ''.'' @ o3))"

section \<open>Driver: \<^verbatim>\<open>handle_entry\<close> and \<^verbatim>\<open>main\<close>\<close>

text \<open>
  The state of a run: what the tokenizer shares (the input, the line numbers, the
  warnings), the current origin and default TTL of \<^verbatim>\<open>main\<close>, the statics \<^verbatim>\<open>owner\<close> and
  \<^verbatim>\<open>prev_owner\<close> of \<^verbatim>\<open>handle_entry\<close>, and the text written to the temporary
  file. \<^verbatim>\<open>handle_entry\<close> reads the default TTL through an \<^verbatim>\<open>int *\<close>; \<open>ttl\<close> holds its 32
  bits.
\<close>

record run_state = io +
  cur_origin :: string_t
  ttl :: uint
  owner :: string_t
  prev_owner :: bool
  temp_file :: string

definition fprintf :: "string \<Rightarrow> run_state \<Rightarrow> run_state" where
  "fprintf s st = st\<lparr>temp_file := temp_file st @ s\<rparr>"

text \<open>Sequencing of steps that may stop the run.\<close>

definition and_then :: "halt + 'a \<Rightarrow> ('a \<Rightarrow> halt + 'b) \<Rightarrow> halt + 'b" where
  "and_then m f = (case m of Inl e \<Rightarrow> Inl e | Inr x \<Rightarrow> f x)"

text \<open>
  A call of \<^verbatim>\<open>qualify_domain\<close> against the current origin, or of \<^verbatim>\<open>str_to_uint\<close>,
  whose failure is fatal with the given message.
\<close>

definition qualify_field :: "string \<Rightarrow> string \<Rightarrow> run_state \<Rightarrow> halt + string_t" where
  "qualify_field name message st =
     (case qualify_domain name (Some (cur_origin st)) of
        Inl e \<Rightarrow> fatal message st
      | Inr d \<Rightarrow> Inr d)"

definition uint_field :: "string \<Rightarrow> bool \<Rightarrow> string \<Rightarrow> run_state \<Rightarrow> halt + uint" where
  "uint_field s allow_time_fmt message st =
     (case str_to_uint s allow_time_fmt of
        Inl e \<Rightarrow> fatal message st
      | Inr v \<Rightarrow> Inr v)"

definition uint16_field :: "string \<Rightarrow> string \<Rightarrow> run_state \<Rightarrow> halt + uint" where
  "uint16_field s message st =
     (case str_to_uint s False of
        Inl e \<Rightarrow> fatal message st
      | Inr v \<Rightarrow> if unat v > 65535 then fatal message st else Inr v)"

text \<open>
  The zone-membership test on the qualify_field owner, as the source writes it: the
  condition under which the record is ignored.
\<close>

definition out_of_zone :: "string_t \<Rightarrow> string_t \<Rightarrow> bool" where
  "out_of_zone top_origin ow =
     (real_len top_origin > real_len ow \<or>
      \<not> strcaseeq (stext top_origin) (drop (real_len ow - real_len top_origin) (stext ow)) \<or>
      (real_len ow > real_len top_origin \<and>
       stext ow ! (real_len ow - real_len top_origin - 1) \<noteq> CHR ''.''))"

text \<open>
  The owner of a record. The result is \<open>True\<close> when the record is to be skipped (the
  function then returns 1). \<^verbatim>\<open>qualify_domain\<close> stores into the static \<^verbatim>\<open>owner\<close> before
  the zone test is made.
\<close>

definition rr_owner :: "string list \<Rightarrow> string_t \<Rightarrow> run_state \<Rightarrow> halt + (bool \<times> run_state)" where
  "rr_owner tok top_origin st =
     (if tok ! 0 \<noteq> '' '' then
        (case qualify_domain (tok ! 0) (Some (cur_origin st)) of
           Inl e \<Rightarrow> fatal ''choked on owner name in RR'' st
         | Inr ow \<Rightarrow>
             let st1 = st\<lparr>owner := ow\<rparr> in
             if out_of_zone top_origin (owner st1)
             then Inr (True, warning ''ignoring out-of-zone data'' (start_line_num st1) st1)
             else Inr (False, st1\<lparr>prev_owner := True\<rparr>))
      else if \<not> prev_owner st
      then fatal ''RR tried to inherit owner from previous record, but there was no previous RR'' st
      else Inr (False, st))"

text \<open>The warning that \<^verbatim>\<open>str_to_uint\<close> prints when it fails, if any.\<close>

definition uint_warning :: "uint_err + uint \<Rightarrow> run_state \<Rightarrow> run_state" where
  "uint_warning r st =
     (case r of
        Inl Empty_string \<Rightarrow> warning ''str_to_uint: NULL or empty string'' (- 1) st
      | Inl Unfinished_time \<Rightarrow> warning ''str_to_uint: unfinished time string'' (- 1) st
      | _ \<Rightarrow> st)"

text \<open>
  The TTL and class of a record: the index \<^verbatim>\<open>next\<close> of the type token and
  \<^verbatim>\<open>local_ttl\<close>. The comparison with 2147483646 is made on \<^verbatim>\<open>local_ttl\<close> before
  \<^verbatim>\<open>temp_ttl\<close> is assigned to it.
\<close>

definition rr_ttl_class :: "string list \<Rightarrow> run_state \<Rightarrow> halt + (nat \<times> uint \<times> run_state)" where
  "rr_ttl_class tok st =
     (let local_ttl = ttl st;
          r1 = str_to_uint (tok ! 1) True;
          st1 = uint_warning r1 st
      in case r1 of
           Inr temp_ttl \<Rightarrow>
             if unat local_ttl > 2147483646 then fatal ''invalid TTL in RR'' st1
             else Inr (if strcaseeq (tok ! 2) ''IN'' then 3 else 2, temp_ttl, st1)
         | Inl e \<Rightarrow>
             if strcaseeq (tok ! 1) ''IN'' then
               (let r2 = str_to_uint (tok ! 2) True;
                    st2 = uint_warning r2 st1
                in case r2 of
                     Inr temp_ttl \<Rightarrow>
                       if unat local_ttl > 2147483646 then fatal ''invalid TTL in RR'' st2
                       else Inr (3, temp_ttl, st2)
                   | Inl e' \<Rightarrow> Inr (2, local_ttl, st2))
             else Inr (1, local_ttl, st1))"

text \<open>The loop over the text tokens of a TXT record: what it writes, or the failure.\<close>

fun txt_rdata_loop :: "string list \<Rightarrow> string \<Rightarrow> san_err + string" where
  "txt_rdata_loop [] written = Inr written"
| "txt_rdata_loop (t # ts) written =
     (case sanitize_string t of
        Inl e \<Rightarrow> Inl e
      | Inr txt_rdata \<Rightarrow>
          txt_rdata_loop ts (written @ backslash # printf_03o (len txt_rdata) @ stext txt_rdata))"

text \<open>
  The dispatch on the type token \<^verbatim>\<open>token[next]\<close>; \<open>n\<close> is \<^verbatim>\<open>num_tokens - next - 1\<close>.
  With three tokens of which the second is a TTL and the third is \<^verbatim>\<open>IN\<close>, \<^verbatim>\<open>next\<close> is
  3 and \<^verbatim>\<open>token[3]\<close> is not a token of this entry.
\<close>

definition rr_rdata :: "string list \<Rightarrow> nat \<Rightarrow> uint \<Rightarrow> run_state \<Rightarrow> halt + run_state" where
  "rr_rdata tok next local_ttl st =
     (if next \<ge> length tok then Inl (Undefined ''token[next] is not a token of this entry'')
      else
        let n = length tok - next - 1; ow = stext (owner st) in
        if strcaseeq (tok ! next) ''SOA'' then
          (if n = 2
           then fatal (''wrong number of tokens in SOA RDATA (perhaps an opening parenthesis '' @
                       ''is on the next line instead of this one?)'') st
           else if n \<noteq> 7 then fatal ''wrong number of tokens in SOA RDATA'' st
           else
             and_then (qualify_field (tok ! (next + 1)) ''choked on MNAME in SOA RDATA'' st) (\<lambda>rdomain.
             and_then (qualify_field (tok ! (next + 2)) ''choked on RNAME in SOA RDATA'' st) (\<lambda>rname.
             and_then (uint_field (tok ! (next + 3)) False ''invalid SERIAL in SOA RDATA'' st) (\<lambda>serial.
             and_then (uint_field (tok ! (next + 4)) True ''invalid REFRESH in SOA RDATA'' st) (\<lambda>refresh.
             and_then (uint_field (tok ! (next + 5)) True ''invalid RETRY in SOA RDATA'' st) (\<lambda>retry.
             and_then (uint_field (tok ! (next + 6)) True ''invalid EXPIRE in SOA RDATA'' st) (\<lambda>expire.
             and_then (uint_field (tok ! (next + 7)) True ''invalid MINIMUM in SOA RDATA'' st) (\<lambda>minimum.
               Inr (fprintf (''Z'' @ ow @ '':'' @ stext rdomain @ '':'' @ stext rname @ '':'' @
                             printf_u serial @ '':'' @ printf_u refresh @ '':'' @
                             printf_u retry @ '':'' @ printf_u expire @ '':'' @
                             printf_u minimum @ [newline]) st)))))))))
        else if strcaseeq (tok ! next) ''NS'' then
          (if n \<noteq> 1 then fatal ''wrong number of tokens in NS RDATA'' st
           else
             and_then (qualify_field (tok ! (next + 1)) ''choked on domain name in NS RDATA'' st) (\<lambda>rdomain.
               Inr (fprintf (''&'' @ ow @ ''::'' @ stext rdomain @ '':'' @ printf_d local_ttl @
                             [newline]) st)))
        else if strcaseeq (tok ! next) ''MX'' then
          (if n \<noteq> 2 then fatal ''wrong number of tokens in MX RDATA'' st
           else
             and_then (uint16_field (tok ! (next + 1)) ''invalid priority in MX RDATA'' st) (\<lambda>priority.
             and_then (qualify_field (tok ! (next + 2)) ''choked on domain name in MX RDATA'' st) (\<lambda>rdomain.
               Inr (fprintf (''@'' @ ow @ ''::'' @ stext rdomain @ '':'' @ printf_d priority @
                             '':'' @ printf_d local_ttl @ [newline]) st))))
        else if strcaseeq (tok ! next) ''A'' then
          (if n \<noteq> 1 then fatal ''wrong number of tokens in A RDATA'' st
           else
             (case sanitize_ip (tok ! (next + 1)) of
                None \<Rightarrow> fatal ''invalid IP address in A RDATA'' st
              | Some ip \<Rightarrow>
                  Inr (fprintf (''+'' @ ow @ '':'' @ ip @ '':'' @ printf_d local_ttl @ [newline]) st)))
        else if strcaseeq (tok ! next) ''CNAME'' then
          (if n \<noteq> 1 then fatal ''wrong number of tokens in CNAME RDATA'' st
           else
             and_then (qualify_field (tok ! (next + 1)) ''choked on domain name in CNAME RDATA'' st) (\<lambda>rdomain.
               Inr (fprintf (''C'' @ ow @ '':'' @ stext rdomain @ '':'' @ printf_d local_ttl @
                             [newline]) st)))
        else if strcaseeq (tok ! next) ''PTR'' then
          (if n \<noteq> 1 then fatal ''wrong number of tokens in PTR RDATA'' st
           else
             and_then (qualify_field (tok ! (next + 1)) ''choked on domain name in PTR RDATA'' st) (\<lambda>rdomain.
               Inr (fprintf (''^'' @ ow @ '':'' @ stext rdomain @ '':'' @ printf_d local_ttl @
                             [newline]) st)))
        else if strcaseeq (tok ! next) ''TXT'' then
          (if n < 1 then fatal ''too few tokens in TXT RDATA'' st
           else
             (case txt_rdata_loop (drop (next + 1) tok) ('':'' @ ow @ '':16:'') of
                Inl e \<Rightarrow> fatal ''choked while sanitizing TXT RDATA'' st
              | Inr written \<Rightarrow>
                  Inr (fprintf (written @ '':'' @ printf_d local_ttl @ [newline]) st)))
        else if strcaseeq (tok ! next) ''SRV'' then
          (if n \<noteq> 4 then fatal ''wrong number of tokens in SRV RDATA'' st
           else
             and_then (uint16_field (tok ! (next + 1)) ''invalid priority in SRV RDATA'' st) (\<lambda>priority.
             and_then (uint16_field (tok ! (next + 2)) ''invalid weight in SRV RDATA'' st) (\<lambda>weight.
             and_then (uint16_field (tok ! (next + 3)) ''invalid port in SRV RDATA'' st) (\<lambda>port.
             and_then (qualify_field (tok ! (next + 4)) ''choked on domain name in SRV RDATA'' st) (\<lambda>rdomain.
               Inr (fprintf ('':'' @ ow @ '':33:'' @
                             backslash # printf_03o (unat priority div 256) @
                             backslash # printf_03o (unat priority mod 256) @
                             backslash # printf_03o (unat weight div 256) @
                             backslash # printf_03o (unat weight mod 256) @
                             backslash # printf_03o (unat port div 256) @
                             backslash # printf_03o (unat port mod 256) @
                             backslash # printf_03o (len rdomain) @ stext rdomain @
                             '':'' @ printf_d local_ttl @ [newline]) st))))))
        else fatal ''unknown RR type'' st)"

text \<open>The last branch of \<^verbatim>\<open>handle_entry\<close>: a resource record.\<close>

definition handle_rr :: "string list \<Rightarrow> string_t \<Rightarrow> run_state \<Rightarrow> halt + (int \<times> run_state)" where
  "handle_rr tok top_origin st =
     (if length tok < 3 then fatal ''RR does not have enough tokens'' st
      else
        and_then (rr_owner tok top_origin st) (\<lambda>(skip, st1).
          if skip then Inr (1, st1)
          else
            and_then (rr_ttl_class tok st1) (\<lambda>(next, local_ttl, st2).
            and_then (rr_rdata tok next local_ttl st2) (\<lambda>st3. Inr (0, st3)))))"

text \<open>The directives \<^verbatim>\<open>$ORIGIN\<close> and \<^verbatim>\<open>$TTL\<close>.\<close>

definition handle_origin :: "string list \<Rightarrow> run_state \<Rightarrow> halt + (int \<times> run_state)" where
  "handle_origin tok st =
     (if length tok \<noteq> 2 then fatal ''$ORIGIN directive has wrong number of arguments'' st
      else
        and_then (qualify_field (tok ! 1) ''choked on domain name in $ORIGIN statement'' st) (\<lambda>d.
          Inr (0, st\<lparr>cur_origin := d\<rparr>)))"

definition handle_ttl :: "string list \<Rightarrow> run_state \<Rightarrow> halt + (int \<times> run_state)" where
  "handle_ttl tok st =
     (if length tok \<noteq> 2 then fatal ''$TTL directive has wrong number of arguments'' st
      else
        (case str_to_uint (tok ! 1) True of
           Inl e \<Rightarrow> fatal ''invalid $TTL value'' st
         | Inr v \<Rightarrow>
             if sint v > 2147483646 then fatal ''invalid $TTL value'' st
             else Inr (0, st\<lparr>ttl := v\<rparr>)))"

text \<open>
  The range \<^verbatim>\<open>start-stop[/step]\<close> of \<^verbatim>\<open>$GENERATE\<close>, and the values of the iterator. A
  step of 0 is refused before the loop is entered.
\<close>

definition generate_range :: "string \<Rightarrow> run_state \<Rightarrow> halt + (nat \<times> nat \<times> nat)" where
  "generate_range s st =
     (case scan_number s 0 False of (start, found, r1) \<Rightarrow>
        if \<not> found \<or> \<not> next_is r1 CHR ''-''
        then fatal ''$GENERATE directive has invalid range (unable to parse start)'' st
        else
          (case scan_number (tl r1) 0 False of (stop, found', r2) \<Rightarrow>
             if \<not> found' \<or> (r2 \<noteq> [] \<and> \<not> next_is r2 CHR ''/'')
             then fatal ''$GENERATE directive has invalid range (unable to parse stop)'' st
             else if next_is r2 CHR ''/'' then
               (case scan_number (tl r2) 0 False of (step, found'', r3) \<Rightarrow>
                  if \<not> found'' \<or> r3 \<noteq> [] \<or> step = 0
                  then fatal ''$GENERATE directive has invalid range (unable to parse step)'' st
                  else Inr (start, stop, step))
             else Inr (start, stop, 1)))"

function generate_iters :: "nat \<Rightarrow> nat \<Rightarrow> nat \<Rightarrow> nat list" where
  "generate_iters i stop step =
     (if step = 0 \<or> stop < i then [] else i # generate_iters (i + step) stop step)"
  by pat_completeness auto
termination
  by (relation "measure (\<lambda>(i, stop, step). stop + 1 - i)") auto

declare generate_iters.simps [simp del]

text \<open>A loop whose body may stop the run.\<close>

fun for_each :: "'i list \<Rightarrow> ('i \<Rightarrow> 's \<Rightarrow> halt + 's) \<Rightarrow> 's \<Rightarrow> halt + 's" where
  "for_each [] body st = Inr st"
| "for_each (i # is) body st =
     (case body i st of Inl e \<Rightarrow> Inl e | Inr st' \<Rightarrow> for_each is body st')"

lemma for_each_cong [fundef_cong]:
  "xs = ys \<Longrightarrow> st = st' \<Longrightarrow> (\<And>i s. i \<in> set ys \<Longrightarrow> body i s = body' i s) \<Longrightarrow>
   for_each xs body st = for_each ys body' st'"
proof (induction xs arbitrary: ys st st')
  case Nil
  then show ?case by simp
next
  case (Cons x xs)
  then show ?case by (auto split: sum.splits)
qed

lemma and_then_cong [fundef_cong]:
  "m = m' \<Longrightarrow> (\<And>x. m' = Inr x \<Longrightarrow> f x = f' x) \<Longrightarrow> and_then m f = and_then m' f'"
  by (auto simp: and_then_def split: sum.splits)

text \<open>
  \<^verbatim>\<open>handle_entry\<close>. \<open>tok\<close> is \<^verbatim>\<open>token[0..num_tokens)\<close>. The \<^verbatim>\<open>$GENERATE\<close> branch calls
  the function itself on three tokens for each value of the iterator and ignores what
  these calls return.
\<close>

function handle_entry :: "string list \<Rightarrow> string_t \<Rightarrow> run_state \<Rightarrow> halt + (int \<times> run_state)" where
  "handle_entry tok top_origin st =
     (if length tok = 0 then Inr (0, st)
      else if strcaseeq (tok ! 0) ''$ORIGIN'' then handle_origin tok st
      else if strcaseeq (tok ! 0) ''$TTL'' then handle_ttl tok st
      else if strcaseeq (tok ! 0) ''$GENERATE'' then
        (if length tok \<noteq> 5
         then fatal ''$GENERATE directive has wrong number of arguments'' st
         else if \<not> strcaseeq (tok ! 3) ''PTR'' \<and> \<not> strcaseeq (tok ! 3) ''CNAME'' \<and>
                 \<not> strcaseeq (tok ! 3) ''A'' \<and> \<not> strcaseeq (tok ! 3) ''NS''
         then fatal ''$GENERATE directive has unknown RR type'' st
         else
           and_then (generate_range (tok ! 1) st) (\<lambda>(start, stop, step).
           and_then (parse_gen_string (tok ! 2) (start_line_num st)) (\<lambda>lhs_parts.
           and_then (parse_gen_string (tok ! 4) (start_line_num st)) (\<lambda>rhs_parts.
           and_then
             (for_each (generate_iters start stop step)
                (\<lambda>i s.
                   and_then (construct_gen_output lhs_parts (int i) (start_line_num s)) (\<lambda>lhs_str.
                   and_then (construct_gen_output rhs_parts (int i) (start_line_num s)) (\<lambda>rhs_str.
                   and_then (handle_entry [lhs_str, tok ! 3, rhs_str] top_origin s) (\<lambda>(r, s').
                     Inr s'))))
                st)
             (\<lambda>st'. Inr (0, st'))))))
      else if strcaseeq (tok ! 0) ''$INCLUDE''
      then fatal ''sorry, $INCLUDE directive is not implemented'' st
      else if next_is (tok ! 0) CHR ''$'' then fatal ''unknown $ directive'' st
      else handle_rr tok top_origin st)"
  by pat_completeness auto
termination
  by (relation "measure (\<lambda>(tok, top_origin, st). length tok)") auto

declare handle_entry.simps [simp del]

subsection \<open>The input is consumed\<close>

text \<open>
  A call of \<^verbatim>\<open>tokenize\<close> that returns tokens has read at least one byte, and
  \<^verbatim>\<open>handle_entry\<close> does not read the input: the loop of \<^verbatim>\<open>main\<close> ends.
\<close>


lemma tokenize_loop_stdin_le:
  "tokenize_loop s w = Inr (r, w') \<Longrightarrow> length (stdin w') \<le> length (stdin w)"
proof (induction s w rule: tokenize_loop.induct)
  case (1 s w)
  show ?case
  proof (cases "fgets (LINE_LEN + 1 - length (line s)) (stdin w)")
    case None
    with "1.prems" show ?thesis by (simp add: tokenize_loop.simps [of s w])
  next
    case (Some cr)
    obtain chunk rest where cr: "cr = (chunk, rest)" by (cases cr)
    have rest: "length rest \<le> length (stdin w)"
      using Some cr by (auto simp: fgets_def split: if_splits dest: read_chunk_length)
    show ?thesis
    proof (cases "scan_line (takeWhile (\<lambda>c. c \<noteq> NUL) chunk) s (start_line_num w)")
      case (Inl e)
      with "1.prems" Some cr show ?thesis by (simp add: tokenize_loop.simps [of s w])
    next
      case (Inr s')
      define w1 where "w1 = (end_of_line_warnings s' (w\<lparr>stdin := rest\<rparr>))\<lparr>line_num := line_num w + 1\<rparr>"
      have w1: "stdin w1 = rest"
        by (simp add: w1_def end_of_line_warnings_def warning_def Let_def)
      show ?thesis
      proof (cases "paren_level s' \<noteq> 0 \<and> chunk \<noteq> []")
        case True
        with "1.prems" Some cr Inr have "tokenize_loop s' w1 = Inr (r, w')"
          by (simp add: tokenize_loop.simps [of s w] w1_def Let_def)
        from "1.IH" [OF Some cr [symmetric] Inr w1_def _ _ this] True
        have "length (stdin w') \<le> length (stdin w1)" by simp
        with w1 rest show ?thesis by simp
      next
        case False
        with "1.prems" Some cr Inr have "w' = w1"
          by (auto simp: tokenize_loop.simps [of s w] w1_def fatal_def Let_def split: if_splits)
        with w1 rest show ?thesis by simp
      qed
    qed
  qed
qed


lemma read_chunk_nonempty: "n \<noteq> 0 \<Longrightarrow> inp \<noteq> [] \<Longrightarrow> fst (read_chunk n inp) \<noteq> []"
  by (cases inp) (auto split: prod.splits)

lemma tokenize_consumes:
  assumes "tokenize w = Inr (Some tok, w')"
  shows "length (stdin w') < length (stdin w)"
proof -
  define w0 where "w0 = w\<lparr>start_line_num := line_num w\<rparr>"
  have in0: "stdin w0 = stdin w" by (simp add: w0_def)
  from assms have run: "tokenize_loop tok_init w0 = Inr (Some tok, w')"
    by (simp add: tokenize_def w0_def)
  have size: "LINE_LEN + 1 - length (line tok_init) = LINE_LEN + 1"
    by (simp add: tok_init_def)
  show ?thesis
  proof (cases "stdin w0 = []")
    case True
    then have "fgets (LINE_LEN + 1) (stdin w0) = None" by (simp add: fgets_def LINE_LEN_def)
    with run size show ?thesis by (simp add: tokenize_loop.simps [of tok_init w0])
  next
    case False
    obtain chunk rest where cr: "read_chunk LINE_LEN (stdin w0) = (chunk, rest)"
      by (cases "read_chunk LINE_LEN (stdin w0)")
    from False have fg: "fgets (LINE_LEN + 1) (stdin w0) = Some (chunk, rest)"
      using cr by (simp add: fgets_def LINE_LEN_def)
    from read_chunk_nonempty [of LINE_LEN "stdin w0"] False cr have ne: "chunk \<noteq> []"
      by (simp add: LINE_LEN_def)
    from fgets_consumes [OF fg ne] have rest: "length rest < length (stdin w0)" .
    show ?thesis
    proof (cases "scan_line (takeWhile (\<lambda>c. c \<noteq> NUL) chunk) tok_init (start_line_num w0)")
      case (Inl e)
      with run size fg show ?thesis by (simp add: tokenize_loop.simps [of tok_init w0])
    next
      case (Inr s')
      define w1 where "w1 = (end_of_line_warnings s' (w0\<lparr>stdin := rest\<rparr>))\<lparr>line_num := line_num w0 + 1\<rparr>"
      have w1: "stdin w1 = rest"
        by (simp add: w1_def end_of_line_warnings_def warning_def Let_def)
      show ?thesis
      proof (cases "paren_level s' \<noteq> 0")
        case True
        with run size fg Inr ne have "tokenize_loop s' w1 = Inr (Some tok, w')"
          by (simp add: tokenize_loop.simps [of tok_init w0] w1_def Let_def)
        from tokenize_loop_stdin_le [OF this] w1 rest in0 show ?thesis by simp
      next
        case False
        with run size fg Inr have "w' = w1"
          by (auto simp: tokenize_loop.simps [of tok_init w0] w1_def Let_def split: if_splits)
        with w1 rest in0 show ?thesis by simp
      qed
    qed
  qed
qed

lemma and_then_Inr:
  "and_then m f = Inr y \<Longrightarrow> \<exists>x. m = Inr x \<and> f x = Inr y"
  by (cases m) (simp_all add: and_then_def)

lemma stdin_fprintf [simp]: "stdin (fprintf s st) = stdin st"
  by (simp add: fprintf_def)

lemma stdin_warning [simp]: "stdin (warning m n st) = stdin st"
  by (simp add: warning_def)

lemma fatal_not_Inr [simp]: "fatal m st \<noteq> Inr x"
  by (simp add: fatal_def)

lemma stdin_uint_warning [simp]: "stdin (uint_warning r st) = stdin st"
  by (simp add: uint_warning_def split: sum.splits uint_err.splits)

lemma rr_owner_stdin: "rr_owner tok top_origin st = Inr (b, st') \<Longrightarrow> stdin st' = stdin st"
  by (auto simp: rr_owner_def Let_def split: if_splits sum.splits)

lemma rr_ttl_class_stdin: "rr_ttl_class tok st = Inr (n, t, st') \<Longrightarrow> stdin st' = stdin st"
  by (auto simp: rr_ttl_class_def Let_def split: if_splits sum.splits)

lemma rr_rdata_stdin: "rr_rdata tok n t st = Inr st' \<Longrightarrow> stdin st' = stdin st"
  unfolding rr_rdata_def Let_def
  by (auto split: if_splits sum.splits option.splits dest!: and_then_Inr)

lemma handle_rr_stdin: "handle_rr tok top_origin st = Inr (r, st') \<Longrightarrow> stdin st' = stdin st"
  unfolding handle_rr_def
  by (auto split: if_splits prod.splits dest!: and_then_Inr rr_owner_stdin rr_ttl_class_stdin
      rr_rdata_stdin)


lemma handle_entry_three:
  "length tok = 3 \<Longrightarrow> handle_entry tok top_origin st = Inr x \<Longrightarrow>
   handle_rr tok top_origin st = Inr x"
  by (simp add: handle_entry.simps [of tok] handle_origin_def handle_ttl_def split: if_splits)

lemma for_each_stdin:
  assumes "\<And>i s s'. body i s = Inr s' \<Longrightarrow> stdin s' = stdin s"
  shows "for_each xs body st = Inr st' \<Longrightarrow> stdin st' = stdin st"
proof (induction xs arbitrary: st)
  case Nil
  then show ?case by simp
next
  case (Cons x xs)
  then obtain s1 where b: "body x st = Inr s1" and r: "for_each xs body s1 = Inr st'"
    by (auto split: sum.splits)
  from Cons.IH [OF r] assms [OF b] show ?case by simp
qed

lemma generated_entry_stdin:
  assumes "and_then (construct_gen_output lhs_parts i (start_line_num s)) (\<lambda>lhs_str.
           and_then (construct_gen_output rhs_parts i (start_line_num s)) (\<lambda>rhs_str.
           and_then (handle_entry [lhs_str, t, rhs_str] top_origin s) (\<lambda>(r, s'). Inr s'))) = Inr s'"
  shows "stdin s' = stdin s"
proof -
  from assms obtain l r c where "handle_entry [l, t, r] top_origin s = Inr (c, s')"
    by (auto dest!: and_then_Inr split: prod.splits)
  then have "handle_rr [l, t, r] top_origin s = Inr (c, s')"
    by (intro handle_entry_three) simp_all
  then show ?thesis by (rule handle_rr_stdin)
qed

lemma handle_entry_stdin:
  assumes "handle_entry tok top_origin st = Inr (r, st')"
  shows "stdin st' = stdin st"
proof -
  consider (none) "length tok = 0"
    | (origin) "length tok \<noteq> 0" "strcaseeq (tok ! 0) ''$ORIGIN''"
    | (ttl) "length tok \<noteq> 0" "\<not> strcaseeq (tok ! 0) ''$ORIGIN''" "strcaseeq (tok ! 0) ''$TTL''"
    | (gen) "length tok \<noteq> 0" "\<not> strcaseeq (tok ! 0) ''$ORIGIN''" "\<not> strcaseeq (tok ! 0) ''$TTL''"
        "strcaseeq (tok ! 0) ''$GENERATE''"
    | (rr) "length tok \<noteq> 0" "\<not> strcaseeq (tok ! 0) ''$ORIGIN''" "\<not> strcaseeq (tok ! 0) ''$TTL''"
        "\<not> strcaseeq (tok ! 0) ''$GENERATE''"
    by blast
  then show ?thesis
  proof cases
    case none
    with assms show ?thesis by (simp add: handle_entry.simps [of tok])
  next
    case origin
    with assms show ?thesis
      by (auto simp: handle_entry.simps [of tok] handle_origin_def split: if_splits
          dest!: and_then_Inr)
  next
    case ttl
    with assms show ?thesis
      by (auto simp: handle_entry.simps [of tok] handle_ttl_def split: if_splits sum.splits)
  next
    case gen
    with assms obtain iters lhs_parts rhs_parts where
      "for_each iters
         (\<lambda>i s.
            and_then (construct_gen_output lhs_parts (int i) (start_line_num s)) (\<lambda>lhs_str.
            and_then (construct_gen_output rhs_parts (int i) (start_line_num s)) (\<lambda>rhs_str.
            and_then (handle_entry [lhs_str, tok ! 3, rhs_str] top_origin s) (\<lambda>(r, s').
              Inr s'))))
         st = Inr st'"
      by (auto simp: handle_entry.simps [of tok] split: if_splits prod.splits dest!: and_then_Inr)
    then show ?thesis
      by (rule for_each_stdin [rotated]) (rule generated_entry_stdin)
  next
    case rr
    with assms have "handle_rr tok top_origin st = Inr (r, st')"
      by (simp add: handle_entry.simps [of tok] split: if_splits)
    then show ?thesis by (rule handle_rr_stdin)
  qed
qed

subsection \<open>The loop of \<^verbatim>\<open>main\<close>\<close>

text \<open>
  \<^verbatim>\<open>while ((num_tokens = tokenize (token)) >= 0) handle_entry (...)\<close>; what
  \<^verbatim>\<open>handle_entry\<close> returns is ignored.
\<close>

function main_loop :: "string_t \<Rightarrow> run_state \<Rightarrow> halt + run_state" where
  "main_loop top_origin st =
     (case tokenize st of
        Inl e \<Rightarrow> Inl e
      | Inr (None, st1) \<Rightarrow> Inr st1
      | Inr (Some tok, st1) \<Rightarrow>
          (case handle_entry tok top_origin st1 of
             Inl e \<Rightarrow> Inl e
           | Inr (r, st2) \<Rightarrow> main_loop top_origin st2))"
  by pat_completeness auto
termination
proof (relation "measure (\<lambda>(top_origin, st). length (stdin st))")
  show "wf (measure (\<lambda>(top_origin, st). length (stdin st)))" by simp
next
  fix top_origin :: string_t and st st1 st2 :: run_state and x tok r y and xo :: "string list option"
  assume "tokenize st = Inr x" and "(xo, st1) = x" and "xo = Some tok"
    and "handle_entry tok top_origin st1 = Inr y" and "(r, st2) = y"
  then have "tokenize st = Inr (Some tok, st1)" and "handle_entry tok top_origin st1 = Inr (r, st2)"
    by simp_all
  from tokenize_consumes [OF this(1)] handle_entry_stdin [OF this(2)]
  show "((top_origin, st2), (top_origin, st)) \<in> measure (\<lambda>(top_origin, st). length (stdin st))"
    by simp
qed


declare main_loop.simps [simp del]

text \<open>
  \<^verbatim>\<open>main\<close> on the origin argument and the standard input. The result \<open>Inr st\<close> is the
  exit status 0, after \<open>temp_file st\<close> has been renamed to the output file; the files
  themselves are not modelled.
\<close>

definition initial_state :: "string_t \<Rightarrow> string \<Rightarrow> run_state" where
  "initial_state origin input =
     \<lparr>stdin = input, line_num = 1, start_line_num = 1, diag = [],
      cur_origin = origin, ttl = DEFAULT_TTL, owner = empty_string_t, prev_owner = False,
      temp_file = []\<rparr>"

definition main :: "string \<Rightarrow> string \<Rightarrow> halt + run_state" where
  "main origin_arg input =
     (case qualify_domain origin_arg (Some root_origin) of
        Inl e \<Rightarrow> Inl (Fatal ''unable to qualify initial origin'' (- 1))
      | Inr origin \<Rightarrow> main_loop origin (initial_state origin input))"

subsection \<open>Notions used to state the driver's properties\<close>

text \<open>
  The temporary file has grown by text that starts with one character, the owner and a
  colon, as every output format does. A state in which an owner outside the zone
  \<^verbatim>\<open>example.com.\<close> is stored and \<^verbatim>\<open>prev_owner\<close> is set.
\<close>

definition owner_line :: "string \<Rightarrow> string \<Rightarrow> string \<Rightarrow> bool" where
  "owner_line ow before after = (\<exists>c rest. after = before @ c # ow @ CHR '':'' # rest)"

definition outside_owner_state :: run_state where
  "outside_owner_state =
     (initial_state example_com [])
       \<lparr>owner := \<lparr>stext = ''b.other.org.'', len = 12, real_len = 12\<rparr>, prev_owner := True\<rparr>"

section \<open>Rule sets for evaluating the model on concrete inputs\<close>

lemmas char_names = backslash_def newline_def dquote_def tab_def carriage_return_def NUL_def
lemmas limits = LINE_LEN_def MAX_PAREN_def MAX_TOKENS_def DOMAIN_LEN_def MAX_GEN_PARTS_def
  DOMAIN_STR_LEN_def DEFAULT_TTL_def
lemmas char_eval = char_of_def bit_Suc_0_iff is_digit_def digit_val_def is_print_def
  to_lower_def strcaseeq_def
lemmas tokenizer_eval = tokenize_def tokenize_loop.simps fgets_def tok_init_def put_def
  scan_char_def note_escape_def
  end_of_line_warnings_def warning_def fatal_def token_str_def c_string_at_def Let_def
lemmas sanitizer_eval = sanitize_string_def empty_string_t_def put_char_def put_escape_def
  plain_byte_def octal_escape_def octal_digit_def qualify_domain_def origin_missing_def
  leading_dot_def example_com_def root_origin_def
lemma replicate_unfold: "replicate n x = (if n = 0 then [] else x # replicate (n - 1) x)"
  by (cases n) simp_all

lemmas printf_eval = replicate_unfold show_base.simps show_nat_def show_int_def zero_pad_def printf_u_def
  printf_d_def printf_03o_def printf_gen_def digit_char_def
lemmas driver_eval = main_def main_loop.simps initial_state_def handle_entry.simps handle_rr_def
  handle_origin_def handle_ttl_def rr_owner_def rr_ttl_class_def rr_rdata_def and_then_def
  qualify_field_def uint_field_def uint16_field_def out_of_zone_def uint_warning_def
  fprintf_def str_to_uint_def time_unit_def sanitize_ip_def split_dot_def ip_octet_def
  next_is_def generate_range_def generate_iters.simps
lemmas generate_eval = parse_gen_string_def gen_braces_def construct_gen_output_def
  gen_part_text_def next_is_def

section \<open>Properties of the numeric parser\<close>

lemma str_to_uint_loop_digits:
  "list_all is_digit ds \<Longrightarrow>
   str_to_uint_loop (ds @ rest) a itf ip tot (of_nat n) =
   str_to_uint_loop rest a itf (ip \<or> ds \<noteq> []) tot
     (of_nat (foldl (\<lambda>n c. 10 * n + digit_val c) n ds))"
proof (induction ds arbitrary: ip n)
  case Nil
  then show ?case by simp
next
  case (Cons d ds)
  have step: "(of_nat n :: uint) * 10 + of_nat (digit_val d) = of_nat (10 * n + digit_val d)"
    by simp
  from Cons.prems have "is_digit d" and "list_all is_digit ds" by simp_all
  then show ?case
    using Cons.IH [of True "10 * n + digit_val d"] by (simp only: append_Cons str_to_uint_loop.simps step foldl_Cons if_True) simp
qed

lemma time_unit_spec:
  "u \<in> set ''wdhmsWDHMS'' \<Longrightarrow> time_unit u = Some (of_nat (spec_unit_seconds u))"
  by (auto simp: time_unit_def spec_unit_seconds_def)

lemma unit_not_digit: "u \<in> set ''wdhmsWDHMS'' \<Longrightarrow> \<not> is_digit u"
  by (auto simp: is_digit_def)

lemma str_to_uint_loop_run:
  assumes "duration_run (ds, u)"
  shows "str_to_uint_loop (ds @ u # rest) True itf False tot 0 =
         str_to_uint_loop rest True True False
           (tot + of_nat (spec_decimal ds * spec_unit_seconds u)) 0"
proof -
  from assms have ds: "list_all is_digit ds" "ds \<noteq> []" and u: "u \<in> set ''wdhmsWDHMS''"
    by (simp_all add: duration_run_def)
  have "str_to_uint_loop (ds @ u # rest) True itf False tot (of_nat 0) =
        str_to_uint_loop (u # rest) True itf True tot (of_nat (spec_decimal ds))"
    using str_to_uint_loop_digits [OF ds(1), of "u # rest" True itf False tot 0] ds(2)
    by (simp add: spec_decimal_def)
  also have "\<dots> = str_to_uint_loop rest True True False
                    (tot + of_nat (spec_decimal ds) * of_nat (spec_unit_seconds u)) 0"
    using unit_not_digit [OF u] time_unit_spec [OF u] by simp
  finally show ?thesis by simp
qed

lemma str_to_uint_loop_runs:
  "list_all duration_run runs \<Longrightarrow> runs \<noteq> [] \<or> itf \<Longrightarrow>
   str_to_uint_loop (duration_text runs) True itf False tot 0 =
   Inr (tot + of_nat (spec_duration runs))"
proof (induction runs arbitrary: itf tot)
  case Nil
  then show ?case by (simp add: duration_text_def spec_duration_def)
next
  case (Cons r runs)
  obtain ds u where r: "r = (ds, u)" by (cases r)
  from Cons.prems r have run: "duration_run (ds, u)" and rest: "list_all duration_run runs"
    by simp_all
  have tx: "duration_text (r # runs) = ds @ u # duration_text runs"
    by (simp add: duration_text_def r)
  have sum: "spec_duration (r # runs) = spec_decimal ds * spec_unit_seconds u + spec_duration runs"
    by (simp add: spec_duration_def r)
  show ?case
    unfolding tx sum str_to_uint_loop_run [OF run]
    using Cons.IH [OF rest, of True] by (simp add: add.assoc)
qed

lemma duration_text_nonempty: "list_all duration_run runs \<Longrightarrow> runs \<noteq> [] \<Longrightarrow> duration_text runs \<noteq> []"
  by (cases runs) (auto simp: duration_text_def duration_run_def)

text \<open>
  C7. In duration mode a sequence of digit-and-unit runs (w = 604800, d = 86400,
  h = 3600, m = 60, s = 1, either case) is accepted and evaluates to the sum of the
  runs, computed in 32-bit unsigned arithmetic: the result read as a number is the sum
  modulo \<open>2 ^ 32\<close>. In particular \<^verbatim>\<open>2w1d2h5m6s\<close> gives
  \<open>2 * 604800 + 86400 + 2 * 3600 + 5 * 60 + 6 = 1303506\<close>.
\<close>

theorem str_to_uint_duration:
  "(list_all duration_run runs \<and> runs \<noteq> [] \<longrightarrow>
      (\<exists>v. str_to_uint (duration_text runs) True = Inr v \<and>
           unat v = spec_duration runs mod 2 ^ 32)) \<and>
   str_to_uint ''2w1d2h5m6s'' True = Inr (2 * 604800 + 86400 + 2 * 3600 + 5 * 60 + 6) \<and>
   str_to_uint ''2w1d2h5m6s'' True = Inr 1303506"
proof (intro conjI impI)
  assume a: "list_all duration_run runs \<and> runs \<noteq> []"
  then have "str_to_uint (duration_text runs) True = Inr (of_nat (spec_duration runs))"
    using str_to_uint_loop_runs [of runs False 0] duration_text_nonempty [of runs]
    by (simp add: str_to_uint_def)
  moreover have "unat (of_nat (spec_duration runs) :: uint) = spec_duration runs mod 2 ^ 32"
    by (simp add: unat_of_nat)
  ultimately show "\<exists>v. str_to_uint (duration_text runs) True = Inr v \<and>
                      unat v = spec_duration runs mod 2 ^ 32"
    by blast
next
  show "str_to_uint ''2w1d2h5m6s'' True = Inr (2 * 604800 + 86400 + 2 * 3600 + 5 * 60 + 6)"
    by (simp add: str_to_uint_def is_digit_def digit_val_def time_unit_def)
next
  show "str_to_uint ''2w1d2h5m6s'' True = Inr 1303506"
    by (simp add: str_to_uint_def is_digit_def digit_val_def time_unit_def)
qed

text \<open>
  The theorem at a duration whose sum exceeds \<open>2 ^ 32\<close>: \<^verbatim>\<open>7102w\<close> is
  \<open>7102 * 604800 = 4295289600\<close> seconds, and the parser returns
  \<open>4295289600 - 2 ^ 32 = 322304\<close>.
\<close>

theorem str_to_uint_duration_witness:
  "list_all duration_run [(''7102'', CHR ''w'')] \<and> [(''7102'', CHR ''w'')] \<noteq> [] \<and>
   str_to_uint ''7102w'' True = Inr 322304"
proof -
  have h: "list_all duration_run [(''7102'', CHR ''w'')] \<and> [(''7102'', CHR ''w'')] \<noteq> []"
    by (simp add: duration_run_def is_digit_def)
  have d: "spec_duration [(''7102'', CHR ''w'')] = 4295289600"
    by (simp add: spec_duration_def spec_decimal_def spec_unit_seconds_def digit_val_def)
  have t: "duration_text [(''7102'', CHR ''w'')] = ''7102w''"
    by (simp add: duration_text_def)
  from str_to_uint_duration [of "[(''7102'', CHR ''w'')]"] h
  obtain v where v: "str_to_uint (duration_text [(''7102'', CHR ''w'')]) True = Inr v"
    and u: "unat v = spec_duration [(''7102'', CHR ''w'')] mod 2 ^ 32"
    by blast
  from u have "unat v = unat (322304 :: uint)" by (simp add: d)
  then have "v = 322304" by (simp only: word_unat_eq_iff)
  with v t h show ?thesis by simp
qed

section \<open>Properties of the sanitizer\<close>


lemma string_inv_put_char:
  "string_inv t \<Longrightarrow> len t \<noteq> DOMAIN_LEN \<Longrightarrow> string_inv (put_char c t)"
  by (simp add: string_inv_def put_char_def)

lemma string_inv_put_escape:
  "string_inv t \<Longrightarrow> len t \<noteq> DOMAIN_LEN \<Longrightarrow> string_inv (put_escape v t)"
  by (simp add: string_inv_def put_escape_def octal_escape_def)

lemma sanitize_loop_inv:
  "sanitize_loop x t = Inr s \<Longrightarrow> string_inv t \<Longrightarrow> string_inv s"
proof (induction x arbitrary: t rule: measure_induct_rule [where f = length])
  case (less x)
  show ?case
  proof (cases x)
    case Nil
    with less.prems show ?thesis by simp
  next
    case (Cons c cs)
    have short: "string_inv s"
      if "length y \<le> length cs" and "sanitize_loop y t' = Inr s" and "string_inv t'" for y t'
      using less.IH [of y t'] that Cons by simp
    from less.prems Cons show ?thesis
      by (auto simp: Let_def split: if_splits list.splits
          intro: string_inv_put_char string_inv_put_escape
          elim!: short [rotated])
  qed
qed

lemma string_inv_empty: "string_inv empty_string_t"
  by (simp add: string_inv_def empty_string_t_def)

lemma sanitize_string_inv: "sanitize_string x = Inr s \<Longrightarrow> string_inv s"
  unfolding sanitize_string_def using sanitize_loop_inv string_inv_empty by blast

lemma atom_low_simps [simp]: "atom_low (Plain c)" "atom_low (Escape v) = (v < 8)"
  by (simp_all add: atom_low_def)

lemma atom_ok_simps [simp]:
  "atom_ok (Plain c) = verbatim_byte c" "atom_ok (Escape v) = (v < 256)"
  by (simp_all add: atom_ok_def)

lemma atom_text_simps [simp]:
  "atom_text (Plain c) = [c]" "atom_text (Escape v) = octal_escape v"
  by (simp_all add: atom_text_def)

lemma render_simps [simp]:
  "render [] = []" "render (a # as) = atom_text a @ render as"
  "render (as @ bs) = render as @ render bs"
  by (simp_all add: render_def)

lemma extend_by_Nil [simp]: "extend_by [] t = t"
  by (simp add: extend_by_def)

lemma extend_by_Plain: "extend_by (Plain c # as) t = extend_by as (put_char c t)"
  by (simp add: extend_by_def put_char_def)

lemma extend_by_Escape: "extend_by (Escape v # as) t = extend_by as (put_escape v t)"
  by (simp add: extend_by_def put_escape_def octal_escape_def)

lemma atoms_from_refl: "atoms_from t t"
  unfolding atoms_from_def by (intro exI [of _ "[]"]) simp

lemma atoms_from_put_char:
  assumes "verbatim_byte c" and "atoms_from (put_char c t) s"
  shows "atoms_from t s"
proof -
  from assms(2) obtain as where "list_all atom_ok as" and "s = extend_by as (put_char c t)"
    unfolding atoms_from_def by blast
  with assms(1) have "list_all atom_ok (Plain c # as) \<and> s = extend_by (Plain c # as) t"
    by (simp add: extend_by_Plain)
  then show ?thesis unfolding atoms_from_def by blast
qed

lemma atoms_from_put_escape:
  assumes "v < 256" and "atoms_from (put_escape v t) s"
  shows "atoms_from t s"
proof -
  from assms(2) obtain as where "list_all atom_ok as" and "s = extend_by as (put_escape v t)"
    unfolding atoms_from_def by blast
  with assms(1) have "list_all atom_ok (Escape v # as) \<and> s = extend_by (Escape v # as) t"
    by (simp add: extend_by_Escape)
  then show ?thesis unfolding atoms_from_def by blast
qed

lemma atoms_from_put_char_imp:
  "atoms_from (put_char c t) s \<Longrightarrow> verbatim_byte c \<longrightarrow> atoms_from t s"
  using atoms_from_put_char by blast

lemma atoms_from_put_escape_imp:
  "atoms_from (put_escape v t) s \<Longrightarrow> v < 256 \<longrightarrow> atoms_from t s"
  using atoms_from_put_escape by blast

lemma of_char_byte: "(of_char d :: nat) < 256"
  using mod_less_divisor [of 256 "of_char d"] by simp

lemma sanitize_loop_atoms:
  "sanitize_loop x t = Inr s \<Longrightarrow> atoms_from t s"
proof (induction x arbitrary: t rule: measure_induct_rule [where f = length])
  case (less x)
  show ?case
  proof (cases x)
    case Nil
    with less.prems show ?thesis by (simp add: atoms_from_refl)
  next
    case (Cons c cs)
    have short: "atoms_from t' s"
      if "length y \<le> length cs" and "sanitize_loop y t' = Inr s" for y t'
      using less.IH [of y t'] that Cons by simp
    from less.prems Cons show ?thesis
      by (auto simp: Let_def verbatim_byte_def plain_byte_def of_char_byte
          split: if_splits list.splits
          dest!: short [rotated] atoms_from_put_char_imp atoms_from_put_escape_imp)
  qed
qed


lemma octal_digit_facts:
  assumes "n < 8"
  shows "is_digit (octal_digit n)" and "digit_val (octal_digit n) = n"
    and "octal_digit n = CHR ''0'' \<longleftrightarrow> n = 0"
  using assms by (simp_all add: octal_digit_def is_digit_def digit_val_def char_of_eq_iff take_bit_eq_mod)

lemma octal_digit_inj: "a < 8 \<Longrightarrow> b < 8 \<Longrightarrow> octal_digit a = octal_digit b \<Longrightarrow> a = b"
  using octal_digit_facts(2) by metis

lemma backslash_facts: "\<not> is_digit backslash" "\<not> verbatim_byte backslash" "\<not> plain_byte backslash"
  by (simp_all add: backslash_def is_digit_def verbatim_byte_def plain_byte_def)

lemma resanitize_plain:
  "verbatim_byte c \<Longrightarrow> len t \<noteq> DOMAIN_LEN \<Longrightarrow>
   sanitize_loop (c # rest) t = sanitize_loop rest (put_char c t)"
  by (simp add: verbatim_byte_def)

lemma resanitize_escape:
  assumes "len t \<noteq> DOMAIN_LEN"
  shows "sanitize_loop (octal_escape v @ rest) t =
         (if decimal_reading v > 255 then Inl Decimal_too_large
          else if plain_byte (char_of (decimal_reading v))
          then sanitize_loop rest (put_char (char_of (decimal_reading v)) t)
          else sanitize_loop rest (put_escape (decimal_reading v) t))"
proof -
  have d: "is_digit (octal_digit (v div 64 mod 8))" "is_digit (octal_digit (v div 8 mod 8))"
    "is_digit (octal_digit (v mod 8))"
    "digit_val (octal_digit (v div 64 mod 8)) = v div 64 mod 8"
    "digit_val (octal_digit (v div 8 mod 8)) = v div 8 mod 8"
    "digit_val (octal_digit (v mod 8)) = v mod 8"
    by (simp_all add: octal_digit_facts)
  have b: "\<not> (is_print backslash \<and> backslash \<noteq> backslash \<and> backslash \<noteq> CHR '':'')" by simp
  show ?thesis
    using assms d b
    by (simp add: octal_escape_def decimal_reading_def Let_def del: sanitize_loop.simps
        add: sanitize_loop.simps(2) [of backslash])
qed


lemma octal_split:
  fixes v :: nat
  shows "v = (v div 64) * 64 + (v div 8 mod 8) * 8 + v mod 8"
proof -
  have "v div 8 div 8 = v div 64" by (simp add: div_mult2_eq [symmetric])
  then have "v div 8 = (v div 64) * 8 + v div 8 mod 8"
    using div_mult_mod_eq [of "v div 8" 8] by simp
  moreover have "v = v div 8 * 8 + v mod 8" by simp
  ultimately have "v = ((v div 64) * 8 + v div 8 mod 8) * 8 + v mod 8" by simp
  then show ?thesis by (simp add: algebra_simps)
qed

lemma octal_high_digit: "(v::nat) < 256 \<Longrightarrow> v div 64 mod 8 = v div 64"
proof -
  assume "v < 256"
  then have "v div 64 < 4" by simp
  then show ?thesis by simp
qed

lemma low_iff: "(v::nat) < 256 \<Longrightarrow> (v div 64 mod 8 = 0 \<and> v div 8 mod 8 = 0) = (v < 8)"
proof -
  assume v: "v < 256"
  show ?thesis
  proof
    assume "v div 64 mod 8 = 0 \<and> v div 8 mod 8 = 0"
    with octal_high_digit [OF v] octal_split [of v] have "v = v mod 8" by simp
    then show "v < 8" by (metis mod_less_divisor zero_less_numeral)
  next
    assume "v < 8"
    then show "v div 64 mod 8 = 0 \<and> v div 8 mod 8 = 0" by simp
  qed
qed


lemma decimal_reading_low: "v < 8 \<Longrightarrow> decimal_reading v = v"
  by (simp add: decimal_reading_def)

lemma decimal_reading_high:
  assumes "8 \<le> v" and "v < 256"
  shows "decimal_reading v \<noteq> v"
proof -
  from low_iff [OF assms(2)] assms(1)
  have "v div 64 mod 8 \<noteq> 0 \<or> v div 8 mod 8 \<noteq> 0" by auto
  then have "(v div 64 mod 8) * 64 + (v div 8 mod 8) * 8 <
             (v div 64 mod 8) * 100 + (v div 8 mod 8) * 10" by auto
  then have "(v div 64 mod 8) * 64 + (v div 8 mod 8) * 8 + v mod 8 <
             decimal_reading v" unfolding decimal_reading_def by simp
  moreover have "(v div 64 mod 8) * 64 + (v div 8 mod 8) * 8 + v mod 8 = v"
    unfolding octal_high_digit [OF assms(2)] by (rule octal_split [symmetric])
  ultimately show ?thesis by simp
qed

lemma low_not_plain: "(v::nat) < 8 \<Longrightarrow> \<not> plain_byte (char_of v)"
  by (simp add: plain_byte_def is_print_def)

lemma resanitize_low_escape:
  "v < 8 \<Longrightarrow> len t \<noteq> DOMAIN_LEN \<Longrightarrow>
   sanitize_loop (octal_escape v @ rest) t = sanitize_loop rest (put_escape v t)"
  by (simp add: resanitize_escape decimal_reading_low low_not_plain)

lemma octal_escape_inj:
  assumes "v < 256" and "w < 256" and "octal_escape v = octal_escape w"
  shows "v = w"
proof -
  from assms(3) have "octal_digit (v div 64 mod 8) = octal_digit (w div 64 mod 8)"
    and "octal_digit (v div 8 mod 8) = octal_digit (w div 8 mod 8)"
    and "octal_digit (v mod 8) = octal_digit (w mod 8)"
    by (simp_all add: octal_escape_def)
  then have "v div 64 mod 8 = w div 64 mod 8" "v div 8 mod 8 = w div 8 mod 8" "v mod 8 = w mod 8"
    by (auto intro: octal_digit_inj)
  then have "(v div 64) * 64 + (v div 8 mod 8) * 8 + v mod 8 =
             (w div 64) * 64 + (w div 8 mod 8) * 8 + w mod 8"
    using octal_high_digit [OF assms(1)] octal_high_digit [OF assms(2)] by simp
  then show ?thesis
    by (rule box_equals) (rule octal_split [symmetric])+
qed

lemma low_escapes_atom:
  assumes "atom_ok a"
  shows "low_escapes (atom_text a @ u) = (atom_low a \<and> low_escapes u)"
proof (cases a)
  case (Plain c)
  with assms have "c \<noteq> backslash" by (auto simp: verbatim_byte_def)
  with Plain show ?thesis by simp
next
  case (Escape v)
  with assms have v: "v < 256" by simp
  have "octal_digit (v div 64 mod 8) = CHR ''0'' \<longleftrightarrow> v div 64 mod 8 = 0"
    and "octal_digit (v div 8 mod 8) = CHR ''0'' \<longleftrightarrow> v div 8 mod 8 = 0"
    by (simp_all add: octal_digit_facts(3))
  with low_iff [OF v] have
    "(octal_digit (v div 64 mod 8) = CHR ''0'' \<and> octal_digit (v div 8 mod 8) = CHR ''0'') = (v < 8)"
    by simp
  then have "low_escapes (octal_escape v @ u) = (v < 8 \<and> low_escapes u)"
    unfolding octal_escape_def by auto
  with Escape show ?thesis by simp
qed

lemma low_escapes_render:
  "list_all atom_ok as \<Longrightarrow> low_escapes (render as) = list_all atom_low as"
proof (induction as)
  case Nil
  then show ?case by simp
next
  case (Cons a as)
  then show ?case using low_escapes_atom [of a "render as"] by simp
qed

lemma len_extend_by [simp]: "len (extend_by as t) = len t + length as"
  by (simp add: extend_by_def)

lemma stext_extend_by [simp]: "stext (extend_by as t) = stext t @ render as"
  by (simp add: extend_by_def)

lemma resanitize_low:
  "list_all atom_ok as \<Longrightarrow> list_all atom_low as \<Longrightarrow> len t + length as \<le> DOMAIN_LEN \<Longrightarrow>
   sanitize_loop (render as @ rest) t = sanitize_loop rest (extend_by as t)"
proof (induction as arbitrary: t)
  case Nil
  then show ?case by simp
next
  case (Cons a as)
  from Cons.prems have l: "len t \<noteq> DOMAIN_LEN" by simp
  from Cons.prems have ok: "list_all atom_ok as" and low: "list_all atom_low as" by simp_all
  show ?case
  proof (cases a)
    case (Plain c)
    with Cons.prems have c: "verbatim_byte c" by simp
    have fits: "len (put_char c t) + length as \<le> DOMAIN_LEN"
      using Cons.prems(3) by (simp add: put_char_def)
    have "render (a # as) @ rest = c # (render as @ rest)"
      using Plain by simp
    then have "sanitize_loop (render (a # as) @ rest) t =
               sanitize_loop (render as @ rest) (put_char c t)"
      using resanitize_plain [OF c l] by simp
    also have "\<dots> = sanitize_loop rest (extend_by as (put_char c t))"
      by (rule Cons.IH [OF ok low fits])
    finally show ?thesis using Plain by (simp only: extend_by_Plain)
  next
    case (Escape v)
    with Cons.prems have v: "v < 8" by simp
    have fits: "len (put_escape v t) + length as \<le> DOMAIN_LEN"
      using Cons.prems(3) by (simp add: put_escape_def)
    have "render (a # as) @ rest = octal_escape v @ (render as @ rest)"
      using Escape by simp
    then have "sanitize_loop (render (a # as) @ rest) t =
               sanitize_loop (render as @ rest) (put_escape v t)"
      using resanitize_low_escape [OF v l] by simp
    also have "\<dots> = sanitize_loop rest (extend_by as (put_escape v t))"
      by (rule Cons.IH [OF ok low fits])
    finally show ?thesis using Escape by (simp only: extend_by_Escape)
  qed
qed

lemma atoms_from_stext: "atoms_from t s \<Longrightarrow> \<exists>u. stext s = stext t @ u"
  unfolding atoms_from_def by auto

lemma sanitize_loop_room: "sanitize_loop (c # cs) t = Inr s \<Longrightarrow> len t \<noteq> DOMAIN_LEN"
  by (cases "len t = DOMAIN_LEN") simp_all

lemma octal_escape_room: "sanitize_loop (octal_escape v @ cs) t = Inr s \<Longrightarrow> len t \<noteq> DOMAIN_LEN"
  unfolding octal_escape_def append_Cons by (rule sanitize_loop_room)

lemma resanitize_high_escape:
  assumes v: "8 \<le> v" "v < 256"
    and run: "sanitize_loop (octal_escape v @ rest) t = Inr s'"
  shows "\<not> (\<exists>u. stext s' = stext t @ octal_escape v @ u)"
proof
  assume "\<exists>u. stext s' = stext t @ octal_escape v @ u"
  then obtain u where same: "stext s' = stext t @ octal_escape v @ u" ..
  from run have l: "len t \<noteq> DOMAIN_LEN" by (rule octal_escape_room)
  let ?d = "decimal_reading v"
  from run have small: "\<not> ?d > 255"
    unfolding resanitize_escape [OF l] by (cases "?d > 255") simp_all
  show False
  proof (cases "plain_byte (char_of ?d)")
    case True
    with run small have "sanitize_loop rest (put_char (char_of ?d) t) = Inr s'"
      unfolding resanitize_escape [OF l] by simp
    then have "atoms_from (put_char (char_of ?d) t) s'" by (rule sanitize_loop_atoms)
    then obtain w where "stext s' = stext (put_char (char_of ?d) t) @ w"
      using atoms_from_stext by blast
    with same have "char_of ?d = backslash"
      by (simp add: put_char_def octal_escape_def)
    with True show False by (simp add: backslash_facts)
  next
    case False
    with run small have "sanitize_loop rest (put_escape ?d t) = Inr s'"
      unfolding resanitize_escape [OF l] by simp
    then have "atoms_from (put_escape ?d t) s'" by (rule sanitize_loop_atoms)
    then obtain w where "stext s' = stext (put_escape ?d t) @ w"
      using atoms_from_stext by blast
    with same have "octal_escape ?d @ w = octal_escape v @ u"
      by (simp add: put_escape_def)
    then have "octal_escape ?d = octal_escape v"
      by (simp add: octal_escape_def)
    moreover from small have "?d < 256" by simp
    ultimately have "?d = v" using v(2) by (rule octal_escape_inj [rotated 2])
    with decimal_reading_high [OF v] show False by simp
  qed
qed

lemma resanitize_same_text:
  "list_all atom_ok as \<Longrightarrow> sanitize_loop (render as) t = Inr s' \<Longrightarrow>
   stext s' = stext t @ render as \<Longrightarrow> list_all atom_low as"
proof (induction as arbitrary: t)
  case Nil
  then show ?case by simp
next
  case (Cons a as)
  from Cons.prems have ok: "list_all atom_ok as" by simp
  show ?case
  proof (cases a)
    case (Plain c)
    with Cons.prems have c: "verbatim_byte c" by simp
    have r: "render (a # as) = c # render as" using Plain by simp
    from Cons.prems(2) have l: "len t \<noteq> DOMAIN_LEN" unfolding r by (rule sanitize_loop_room)
    from Cons.prems(2) have "sanitize_loop (render as) (put_char c t) = Inr s'"
      unfolding r resanitize_plain [OF c l] .
    moreover from Cons.prems(3) have "stext s' = stext (put_char c t) @ render as"
      unfolding r by (simp add: put_char_def)
    ultimately have "list_all atom_low as" by (rule Cons.IH [OF ok])
    with Plain show ?thesis by simp
  next
    case (Escape v)
    with Cons.prems have v: "v < 256" by simp
    have r: "render (a # as) = octal_escape v @ render as"
      using Escape by simp
    from Cons.prems(2) have l: "len t \<noteq> DOMAIN_LEN" unfolding r by (rule octal_escape_room)
    have low: "v < 8"
    proof (rule ccontr)
      assume "\<not> v < 8"
      then have "8 \<le> v" by simp
      from resanitize_high_escape [OF this v Cons.prems(2) [unfolded r]] Cons.prems(3)
      show False unfolding r by blast
    qed
    from Cons.prems(2) have "sanitize_loop (render as) (put_escape v t) = Inr s'"
      unfolding r resanitize_low_escape [OF low l] .
    moreover from Cons.prems(3) have "stext s' = stext (put_escape v t) @ render as"
      unfolding r by (simp add: put_escape_def)
    ultimately have "list_all atom_low as" by (rule Cons.IH [OF ok])
    with Escape low show ?thesis by simp
  qed
qed

lemma sanitize_string_atoms:
  assumes "sanitize_string x = Inr s"
  shows "\<exists>as. list_all atom_ok as \<and> s = extend_by as empty_string_t \<and>
              stext s = render as \<and> length as \<le> DOMAIN_LEN"
proof -
  from assms have "atoms_from empty_string_t s"
    unfolding sanitize_string_def by (rule sanitize_loop_atoms)
  then obtain as where ok: "list_all atom_ok as" and s: "s = extend_by as empty_string_t"
    unfolding atoms_from_def by blast
  from sanitize_string_inv [OF assms] have "len s \<le> DOMAIN_LEN" by (simp add: string_inv_def)
  with s have "length as \<le> DOMAIN_LEN" by (simp add: empty_string_t_def)
  moreover from s have "stext s = render as" by (simp add: empty_string_t_def)
  ultimately show ?thesis using ok s by blast
qed

text \<open>
  C2 (as amended). When \<^verbatim>\<open>sanitize_string\<close> succeeds on \<open>x\<close>, sanitizing the encoded
  output gives the same encoded output exactly when every escape of that output is one
  of \<^verbatim>\<open>\000\<close> to \<^verbatim>\<open>\007\<close> (in particular when it has no escape): in that case
  the second run succeeds and returns the same text with the same two lengths, and in
  every other case the second run fails or returns a different text.
\<close>

theorem sanitize_idempotent_exactly:
  "sanitize_string x = Inr s \<Longrightarrow>
   (low_escapes (stext s) \<longrightarrow> sanitize_string (stext s) = Inr s) \<and>
   (\<not> low_escapes (stext s) \<longrightarrow>
      (\<forall>s'. sanitize_string (stext s) = Inr s' \<longrightarrow> stext s' \<noteq> stext s))"
proof -
  assume run: "sanitize_string x = Inr s"
  from sanitize_string_atoms [OF run] obtain as where ok: "list_all atom_ok as"
    and s: "s = extend_by as empty_string_t" and enc: "stext s = render as"
    and fits: "length as \<le> DOMAIN_LEN" by blast
  have low: "low_escapes (stext s) = list_all atom_low as"
    unfolding enc by (rule low_escapes_render [OF ok])
  have "sanitize_string (stext s) = Inr s" if "low_escapes (stext s)"
  proof -
    from that low have "list_all atom_low as" by simp
    moreover from fits have "len empty_string_t + length as \<le> DOMAIN_LEN"
      by (simp add: empty_string_t_def)
    ultimately have "sanitize_loop (render as @ []) empty_string_t =
                     sanitize_loop [] (extend_by as empty_string_t)"
      by (rule resanitize_low [OF ok])
    then have "sanitize_loop (render as) empty_string_t = Inr s" using s by simp
    then show ?thesis unfolding sanitize_string_def enc .
  qed
  moreover have "low_escapes (stext s)"
    if "sanitize_string (stext s) = Inr s'" and "stext s' = stext s" for s'
  proof -
    from that(1) have "sanitize_loop (render as) empty_string_t = Inr s'"
      unfolding sanitize_string_def enc .
    moreover from that(2) have "stext s' = stext empty_string_t @ render as"
      unfolding enc by (simp add: empty_string_t_def)
    ultimately have "list_all atom_low as" by (rule resanitize_same_text [OF ok])
    with low show ?thesis by simp
  qed
  ultimately show ?thesis by blast
qed

text \<open>
  The theorem at two inputs: \<^verbatim>\<open>\007a\$\<close>, encoded as \<^verbatim>\<open>\007a$\<close> and stable, and
  \<^verbatim>\<open>\:\<close>, encoded as \<^verbatim>\<open>\072\<close> and not stable.
\<close>

theorem sanitize_idempotent_exactly_witness:
  "sanitize_string [backslash, CHR ''0'', CHR ''0'', CHR ''7'', CHR ''a'', backslash, CHR ''$''] =
     Inr \<lparr>stext = [backslash, CHR ''0'', CHR ''0'', CHR ''7'', CHR ''a'', CHR ''$''], len = 3, real_len = 6\<rparr> \<and>
   low_escapes [backslash, CHR ''0'', CHR ''0'', CHR ''7'', CHR ''a'', CHR ''$''] \<and>
   sanitize_string [backslash, CHR ''0'', CHR ''0'', CHR ''7'', CHR ''a'', CHR ''$''] =
     Inr \<lparr>stext = [backslash, CHR ''0'', CHR ''0'', CHR ''7'', CHR ''a'', CHR ''$''], len = 3, real_len = 6\<rparr> \<and>
   sanitize_string [backslash, CHR '':''] =
     Inr \<lparr>stext = [backslash, CHR ''0'', CHR ''7'', CHR ''2''], len = 1, real_len = 4\<rparr> \<and>
   \<not> low_escapes [backslash, CHR ''0'', CHR ''7'', CHR ''2''] \<and>
   \<not> (\<exists>s'. sanitize_string [backslash, CHR ''0'', CHR ''7'', CHR ''2''] = Inr s' \<and>
           stext s' = [backslash, CHR ''0'', CHR ''7'', CHR ''2''])"
proof -
  let ?s = "\<lparr>stext = [backslash, CHR ''0'', CHR ''0'', CHR ''7'', CHR ''a'', CHR ''$''], len = 3, real_len = 6\<rparr>"
  let ?t = "\<lparr>stext = [backslash, CHR ''0'', CHR ''7'', CHR ''2''], len = 1, real_len = 4\<rparr>"
  have a: "sanitize_string [backslash, CHR ''0'', CHR ''0'', CHR ''7'', CHR ''a'', backslash, CHR ''$''] = Inr ?s"
    by code_simp
  have b: "low_escapes (stext ?s)" by (simp add: backslash_def)
  have c: "sanitize_string [backslash, CHR '':''] = Inr ?t" by code_simp
  have d: "\<not> low_escapes (stext ?t)" by simp
  from sanitize_idempotent_exactly [OF a] b sanitize_idempotent_exactly [OF c] d a c
  show ?thesis by simp
qed

text \<open>
  C2 as stated fails. The input \<^verbatim>\<open>\.\<close> (an escaped dot) is encoded as the octal
  escape \<^verbatim>\<open>\056\<close>; sanitizing that reads \<^verbatim>\<open>\056\<close> as the decimal escape of
  byte 56 and returns \<^verbatim>\<open>8\<close>.
\<close>

theorem sanitize_not_idempotent:
  "sanitize_string [backslash, CHR ''.''] =
     Inr \<lparr>stext = [backslash, CHR ''0'', CHR ''5'', CHR ''6''], len = 1, real_len = 4\<rparr> \<and>
   sanitize_string [backslash, CHR ''0'', CHR ''5'', CHR ''6''] =
     Inr \<lparr>stext = ''8'', len = 1, real_len = 1\<rparr> \<and>
   ''8'' \<noteq> [backslash, CHR ''0'', CHR ''5'', CHR ''6'']"
  by code_simp

section \<open>Properties of the qualifier\<close>


lemma sanitized_last:
  assumes "sanitize_string name = Inr sname" and "len sname \<noteq> 0"
  shows "stext sname ! (real_len sname - 1) = last (stext sname)"
proof -
  from sanitize_string_inv [OF assms(1)] assms(2)
  have "real_len sname = length (stext sname)" and "stext sname \<noteq> []"
    by (auto simp: string_inv_def)
  then show ?thesis by (simp add: last_conv_nth)
qed

lemma sanitize_at: "sanitize_string ''@'' = Inr \<lparr>stext = ''@'', len = 1, real_len = 1\<rparr>"
  by code_simp

lemma sanitize_empty: "sanitize_string [] = Inr empty_string_t"
  by (simp add: sanitize_string_def)

text \<open>
  C8 (as amended). \<^verbatim>\<open>qualify_domain\<close> on \<^verbatim>\<open>@\<close> returns the origin as it is when the
  origin is present and not empty, and fails when it is absent or empty; on the empty
  name it fails when the origin is absent or empty. For a name that sanitizes to a
  non-empty \<open>sname\<close> without an empty label (no leading dot before more text, no two
  dots in a row), other than \<^verbatim>\<open>@\<close> and not ending in a dot: with the origin absent or
  empty the call fails; with the root origin the result is \<open>sname\<close> and a dot if
  \<open>len sname + 1\<close> is at most 255, else failure; with another origin it is \<open>sname\<close>, a dot
  and the origin if \<open>len sname + 1 + len origin\<close> is at most 255, else failure.
\<close>

theorem qualify_domain_policy:
  "(origin = Some og \<and> len og \<noteq> 0 \<longrightarrow> qualify_domain ''@'' origin = Inr og) \<and>
   (origin_missing origin \<longrightarrow> qualify_domain ''@'' origin = Inl At_without_origin) \<and>
   (origin_missing origin \<longrightarrow> qualify_domain [] origin = Inl Both_empty) \<and>
   (sanitize_string name = Inr sname \<and> len sname \<noteq> 0 \<and>
    \<not> leading_dot (stext sname) \<and> \<not> has_dotdot (stext sname) \<and>
    stext sname \<noteq> ''@'' \<and> last (stext sname) \<noteq> CHR ''.'' \<longrightarrow>
      (origin_missing origin \<longrightarrow> qualify_domain name origin = Inl Relative_without_origin) \<and>
      (origin = Some og \<and> len og \<noteq> 0 \<and> stext og = ''.'' \<longrightarrow>
         qualify_domain name origin =
           (if len sname + 1 \<le> DOMAIN_LEN
            then Inr \<lparr>stext = stext sname @ ''.'', len = len sname + 1,
                      real_len = real_len sname + 1\<rparr>
            else Inl Name_too_long)) \<and>
      (origin = Some og \<and> len og \<noteq> 0 \<and> stext og \<noteq> ''.'' \<longrightarrow>
         qualify_domain name origin =
           (if len sname + 1 + len og \<le> DOMAIN_LEN
            then Inr \<lparr>stext = stext sname @ ''.'' @ stext og, len = len sname + 1 + len og,
                      real_len = real_len sname + 1 + real_len og\<rparr>
            else Inl Name_plus_origin_too_long)))"
proof (intro conjI impI)
  assume "origin = Some og \<and> len og \<noteq> 0"
  then show "qualify_domain ''@'' origin = Inr og"
    by (simp add: qualify_domain_def sanitize_at origin_missing_def leading_dot_def)
next
  assume "origin_missing origin"
  then show "qualify_domain ''@'' origin = Inl At_without_origin"
    by (simp add: qualify_domain_def sanitize_at leading_dot_def)
next
  assume "origin_missing origin"
  then show "qualify_domain [] origin = Inl Both_empty"
    by (simp add: qualify_domain_def sanitize_empty empty_string_t_def)
next
  assume a: "sanitize_string name = Inr sname \<and> len sname \<noteq> 0 \<and>
    \<not> leading_dot (stext sname) \<and> \<not> has_dotdot (stext sname) \<and>
    stext sname \<noteq> ''@'' \<and> last (stext sname) \<noteq> CHR ''.''"
  then have l: "stext sname ! (real_len sname - 1) \<noteq> CHR ''.''"
    using sanitized_last [of name sname] by simp
  {
    assume "origin_missing origin"
    with a l show "qualify_domain name origin = Inl Relative_without_origin"
      by (simp add: qualify_domain_def)
  next
    assume "origin = Some og \<and> len og \<noteq> 0 \<and> stext og = ''.''"
    with a l show "qualify_domain name origin =
           (if len sname + 1 \<le> DOMAIN_LEN
            then Inr \<lparr>stext = stext sname @ ''.'', len = len sname + 1,
                      real_len = real_len sname + 1\<rparr>
            else Inl Name_too_long)"
      by (simp add: qualify_domain_def origin_missing_def)
  next
    assume "origin = Some og \<and> len og \<noteq> 0 \<and> stext og \<noteq> ''.''"
    with a l show "qualify_domain name origin =
           (if len sname + 1 + len og \<le> DOMAIN_LEN
            then Inr \<lparr>stext = stext sname @ ''.'' @ stext og, len = len sname + 1 + len og,
                      real_len = real_len sname + 1 + real_len og\<rparr>
            else Inl Name_plus_origin_too_long)"
      by (simp add: qualify_domain_def origin_missing_def)
  }
qed

theorem qualify_domain_policy_witness:
  "qualify_domain ''@'' (Some example_com) = Inr example_com \<and>
   origin_missing None \<and>
   qualify_domain ''@'' None = Inl At_without_origin \<and>
   qualify_domain [] None = Inl Both_empty \<and>
   sanitize_string ''www'' = Inr \<lparr>stext = ''www'', len = 3, real_len = 3\<rparr> \<and>
   qualify_domain ''www'' None = Inl Relative_without_origin \<and>
   qualify_domain ''www'' (Some root_origin) = Inr \<lparr>stext = ''www.'', len = 4, real_len = 4\<rparr> \<and>
   qualify_domain ''www'' (Some example_com) =
     Inr \<lparr>stext = ''www.example.com.'', len = 16, real_len = 16\<rparr>"
proof -
  let ?w = "\<lparr>stext = ''www'', len = 3, real_len = 3\<rparr>"
  have s: "sanitize_string ''www'' = Inr ?w" by code_simp
  have h: "sanitize_string ''www'' = Inr ?w \<and> len ?w \<noteq> 0 \<and>
    \<not> leading_dot (stext ?w) \<and> \<not> has_dotdot (stext ?w) \<and>
    stext ?w \<noteq> ''@'' \<and> last (stext ?w) \<noteq> CHR ''.''"
    using s by (simp add: leading_dot_def)
  have m: "origin_missing None" by (simp add: origin_missing_def)
  have e: "len example_com \<noteq> 0" "stext example_com \<noteq> ''.''"
    by (simp_all add: example_com_def)
  have r: "len root_origin \<noteq> 0" "stext root_origin = ''.''"
    by (simp_all add: root_origin_def)
  from qualify_domain_policy [of "Some example_com" example_com "''www''" ?w] h e
  have 1: "qualify_domain ''@'' (Some example_com) = Inr example_com"
    and 2: "qualify_domain ''www'' (Some example_com) =
     Inr \<lparr>stext = ''www.example.com.'', len = 16, real_len = 16\<rparr>"
    by (simp_all add: example_com_def DOMAIN_LEN_def)
  from qualify_domain_policy [of "Some root_origin" root_origin "''www''" ?w] h r
  have 3: "qualify_domain ''www'' (Some root_origin) = Inr \<lparr>stext = ''www.'', len = 4, real_len = 4\<rparr>"
    by (simp add: DOMAIN_LEN_def)
  from qualify_domain_policy [of None undefined "''www''" ?w] h m
  have 4: "qualify_domain ''@'' None = Inl At_without_origin"
    "qualify_domain [] None = Inl Both_empty"
    "qualify_domain ''www'' None = Inl Relative_without_origin"
    by simp_all
  from 1 2 3 4 s m show ?thesis by simp
qed

text \<open>
  C8 as stated fails. \<^verbatim>\<open>a..b\<close> is a non-empty relative name of four characters, and
  the call fails on its empty label, with the root origin and with \<^verbatim>\<open>example.com.\<close>,
  where the claim gives \<^verbatim>\<open>a..b.\<close> and \<^verbatim>\<open>a..b.example.com.\<close> The name \<^verbatim>\<open>\@\<close> (an
  escaped at-sign) is a non-empty relative name too, other than \<^verbatim>\<open>@\<close>; it sanitizes to
  \<^verbatim>\<open>@\<close> and the result is the origin alone.
\<close>

theorem qualify_domain_empty_label:
  "qualify_domain ''a..b'' (Some root_origin) = Inl Empty_label \<and>
   qualify_domain ''a..b'' (Some example_com) = Inl Empty_label \<and>
   qualify_domain [backslash, CHR ''@''] (Some example_com) = Inr example_com"
  by (simp add: sanitizer_eval char_eval char_names limits)

section \<open>Properties of the tokenizer\<close>

text \<open>
  At the end of the input \<^verbatim>\<open>fgets\<close> returns the null pointer and \<^verbatim>\<open>tokenize\<close>
  returns \<open>-1\<close> from inside the loop, whatever the nesting count is.
\<close>

lemma tokenize_loop_end_of_input:
  assumes "stdin w = []" and "length (line s) < LINE_LEN"
  shows "tokenize_loop s w = Inr (None, w)"
proof -
  from assms(2) have "\<not> LINE_LEN + 1 - length (line s) \<le> 1" by arith
  with assms(1) have "fgets (LINE_LEN + 1 - length (line s)) (stdin w) = None"
    by (simp add: fgets_def)
  then show ?thesis by (simp add: tokenize_loop.simps [of s w])
qed

text \<open>
  C1 (the code at the failing input). The input ends after the line \<^verbatim>\<open>b NS ( ns1\<close>,
  whose parenthesis is never closed. \<^verbatim>\<open>tokenize\<close> returns \<open>-1\<close>, the normal
  end-of-input signal, and no fatal error: \<^verbatim>\<open>main\<close> ends with status 0 and an output
  that holds the record before, while the open entry is dropped without a message.
\<close>

theorem eof_inside_parentheses:
  "tokenize \<lparr>stdin = ''b NS ( ns1'' @ [newline], line_num = 2, start_line_num = 1, diag = []\<rparr> =
     Inr (None, \<lparr>stdin = [], line_num = 3, start_line_num = 2, diag = []\<rparr>) \<and>
   main ''example.com'' (''a A 192.0.2.1'' @ [newline] @ ''b NS ( ns1'' @ [newline]) =
     Inr \<lparr>stdin = [], line_num = 3, start_line_num = 2, diag = [],
          cur_origin = example_com, ttl = 86400,
          owner = \<lparr>stext = ''a.example.com.'', len = 14, real_len = 14\<rparr>,
          prev_owner = True,
          temp_file = ''+a.example.com.:192.0.2.1:86400'' @ [newline]\<rparr>"
  by (simp add: driver_eval tokenizer_eval sanitizer_eval printf_eval char_eval char_names limits)

text \<open>
  C10 (the code at the failing inputs). A double quote still open at the end of a line,
  and a backslash just before the end of a line, are reported by a warning and are not
  fatal, but neither is undone. Inside parentheses the quoted span goes on in the next
  line (the token is \<^verbatim>\<open>abc\<close>, the newline and \<^verbatim>\<open>def\<close>), and the escape falls on the
  first byte of the next line (the closing parenthesis there is skipped). In an entry of
  one line the newline stays in the quoted token.
\<close>

theorem open_quote_not_closed_at_end_of_line:
  "tokenize \<lparr>stdin = ''a TXT ( '' @ [dquote] @ ''abc'' @ [newline] @ ''def'' @ [dquote] @ '' )'' @ [newline],
             line_num = 1, start_line_num = 1, diag = []\<rparr> =
     Inr (Some [''a'', ''TXT'', ''abc'' @ [newline] @ ''def''],
          \<lparr>stdin = [], line_num = 3, start_line_num = 1,
           diag = [(''open doublequoted string at end of line; pretending it was closed'', 1)]\<rparr>) \<and>
   tokenize \<lparr>stdin = ''a NS ( b'' @ [backslash, newline] @ '') c )'' @ [newline],
             line_num = 1, start_line_num = 1, diag = []\<rparr> =
     Inr (Some [''a'', ''NS'', ''b'' @ [backslash], ''c''],
          \<lparr>stdin = [], line_num = 3, start_line_num = 1,
           diag = [(''hanging backslash at end of line; pretending it was terminated'', 1)]\<rparr>) \<and>
   tokenize \<lparr>stdin = ''a TXT '' @ [dquote] @ ''abc'' @ [newline],
             line_num = 1, start_line_num = 1, diag = []\<rparr> =
     Inr (Some [''a'', ''TXT'', ''abc'' @ [newline]],
          \<lparr>stdin = [], line_num = 2, start_line_num = 1,
           diag = [(''open doublequoted string at end of line; pretending it was closed'', 1)]\<rparr>)"
  by (simp add: tokenizer_eval char_eval char_names limits)

text \<open>
  Once a double quote has been accepted, \<^verbatim>\<open>in_txt\<close> stays set and no later double quote
  of the entry is refused.
\<close>

lemma in_txt_put [simp]: "in_txt (put c s) = in_txt s"
  by (simp add: put_def)

lemma in_txt_note_escape [simp]: "in_txt (note_escape c s) = in_txt s"
  by (simp add: note_escape_def Let_def)

lemma token_note_escape [simp]: "token (note_escape c s) = token s"
  by (simp add: note_escape_def Let_def)

lemma line_note_escape [simp]: "line (note_escape c s) = line s"
  by (simp add: note_escape_def Let_def)

lemma in_doublequote_note_escape [simp]: "in_doublequote (note_escape c s) = in_doublequote s"
  by (simp add: note_escape_def Let_def)

lemma in_quote_note_escape: "in_quote (note_escape c s) = (set_in_quote s \<or> in_quote s)"
  by (simp add: note_escape_def Let_def)











text \<open>The two states of the examples are those the scan reaches on the text before the quote.\<close>

lemma scan_reaches_after_a_txt: "scan_line ''a TXT '' tok_init 1 = Inr after_a_txt"
  by (simp add: after_a_txt_def tokenizer_eval char_eval char_names limits)

lemma scan_reaches_after_txt_a: "scan_line ''TXT a '' tok_init 1 = Inr after_txt_a"
  by (simp add: after_txt_a_def tokenizer_eval char_eval char_names limits)



section \<open>Properties of the \<^verbatim>\<open>$GENERATE\<close> expander\<close>

lemma parse_gen_loop_literal:
  "CHR ''$'' \<notin> set l \<Longrightarrow> backslash \<notin> set l \<Longrightarrow>
   parse_gen_loop (l @ s) False parts cur n = parse_gen_loop s False parts (cur @ l) n"
  by (induction l arbitrary: cur) auto

lemma parse_gen_loop_dollars:
  "parse_gen_loop (''$$'' @ s) False parts cur n = parse_gen_loop s False parts (cur @ ''$$'') n"
  by (simp add: next_is_def backslash_def)

lemma keeps_literal_end: "keeps_literal parts cur (parts @ [Literal cur])"
  by (simp add: keeps_literal_def)

lemma keeps_literal_byte:
  "keeps_literal parts (cur @ u) ps \<Longrightarrow> u \<noteq> [] \<Longrightarrow> keeps_literal parts cur ps"
  by (auto simp: keeps_literal_def)

lemma keeps_literal_placeholder:
  "keeps_literal ((if cur = [] then parts else parts @ [Literal cur]) @ [p]) [] ps \<Longrightarrow>
   keeps_literal parts cur ps"
  by (auto simp: keeps_literal_def)

lemma keeps_literal_last:
  "keeps_literal parts cur ((if cur = [] then parts else parts @ [Literal cur]) @ [p])"
  by (auto simp: keeps_literal_def)

lemma parse_gen_loop_keeps:
  "parse_gen_loop s q parts cur n = Inr ps \<Longrightarrow> keeps_literal parts cur ps"
proof (induction s arbitrary: q parts cur rule: measure_induct_rule [where f = length])
  case (less s)
  show ?case
  proof (cases s)
    case Nil
    with less.prems show ?thesis by (auto simp: keeps_literal_end)
  next
    case (Cons c cs)
    have IH: "keeps_literal parts' cur' ps"
      if "length s' \<le> length cs" and "parse_gen_loop s' q' parts' cur' n = Inr ps"
      for s' q' parts' cur'
      using less.IH [of s' q' parts' cur'] that Cons by simp
    consider (quoted) "q" | (bs) "\<not> q" "c = backslash"
      | (dd) "\<not> q" "c \<noteq> backslash" "c = CHR ''$''" "next_is cs CHR ''$''"
      | (ph) "\<not> q" "c \<noteq> backslash" "c = CHR ''$''" "\<not> next_is cs CHR ''$''"
      | (other) "\<not> q" "c \<noteq> backslash" "c \<noteq> CHR ''$''"
      by blast
    then show ?thesis
    proof cases
      case quoted
      with less.prems Cons have "parse_gen_loop cs False parts (cur @ [c]) n = Inr ps" by simp
      from IH [OF _ this] show ?thesis by (auto intro: keeps_literal_byte)
    next
      case bs
      with less.prems Cons have "parse_gen_loop cs True parts (cur @ [c]) n = Inr ps" by simp
      from IH [OF _ this] show ?thesis by (auto intro: keeps_literal_byte)
    next
      case dd
      with less.prems Cons have "parse_gen_loop (tl cs) False parts (cur @ [c, CHR ''$'']) n = Inr ps"
        by simp
      from IH [OF _ this] show ?thesis by (auto intro: keeps_literal_byte)
    next
      case other
      with less.prems Cons have "parse_gen_loop cs False parts (cur @ [c]) n = Inr ps" by simp
      from IH [OF _ this] show ?thesis by (auto intro: keeps_literal_byte)
    next
      case ph
      define parts1 where "parts1 = (if cur = [] then parts else parts @ [Literal cur])"
      from ph less.prems Cons obtain offset width base rest where
        g: "gen_braces cs n = Inr ((offset, width, base), rest)"
        and r: "(rest = [] \<and> ps = parts1 @ [Placeholder offset width base]) \<or>
                parse_gen_loop rest False (parts1 @ [Placeholder offset width base]) [] n = Inr ps"
        by (auto simp: Let_def parts1_def split: if_splits sum.splits)
      from r show ?thesis
      proof
        assume "rest = [] \<and> ps = parts1 @ [Placeholder offset width base]"
        then show ?thesis by (simp add: parts1_def keeps_literal_last)
      next
        assume a: "parse_gen_loop rest False (parts1 @ [Placeholder offset width base]) [] n = Inr ps"
        from gen_braces_length [OF g] have "length rest \<le> length cs" .
        from IH [OF this a] show ?thesis
          unfolding parts1_def by (rule keeps_literal_placeholder)
      qed
    qed
  qed
qed

lemma construct_gen_loop_prefix:
  "construct_gen_loop ps iter dest pos n = Inr out \<Longrightarrow> \<exists>rest. out = dest @ rest"
proof (induction ps arbitrary: dest pos)
  case Nil
  then show ?case by simp
next
  case (Cons p ps)
  then show ?case by (fastforce simp: Let_def split: if_splits)
qed

text \<open>
  What the loop of \<^verbatim>\<open>parse_gen_string\<close> does with \<^verbatim>\<open>$$\<close> in every template: it is
  not taken as a placeholder, and both characters stay in the literal part. When
  \<^verbatim>\<open>$$\<close> follows a literal prefix \<open>l\<close> (no \<^verbatim>\<open>$\<close>, no backslash, short enough for
  the result buffer), every expansion of the template, for every value of the iterator,
  starts with \<open>l\<close> followed by the two characters \<^verbatim>\<open>$$\<close>.
\<close>

theorem double_dollar_kept:
  assumes "CHR ''$'' \<notin> set l" and "backslash \<notin> set l"
    and "length l + 2 < DOMAIN_STR_LEN"
    and "parse_gen_string (l @ ''$$'' @ r) n = Inr parts"
    and "construct_gen_output parts iter n = Inr out"
  shows "\<exists>rest. out = l @ ''$$'' @ rest"
proof -
  from assms(4) have "parse_gen_loop r False [] (l @ ''$$'') n = Inr parts"
    unfolding parse_gen_string_def
    by (simp only: parse_gen_loop_literal [OF assms(1,2)] parse_gen_loop_dollars append_Nil)
  from parse_gen_loop_keeps [OF this] obtain x tail where
    parts: "parts = Literal (l @ ''$$'' @ x) # tail"
    by (auto simp: keeps_literal_def)
  define t where "t = l @ ''$$'' @ x"
  from assms(5) parts have
    "construct_gen_loop tail iter (take (DOMAIN_STR_LEN - 1) t) (length t) n = Inr out"
    by (auto simp: construct_gen_output_def gen_part_text_def Let_def t_def split: if_splits)
  from construct_gen_loop_prefix [OF this] obtain rest where
    out: "out = take (DOMAIN_STR_LEN - 1) t @ rest" by blast
  define k where "k = DOMAIN_STR_LEN - 1 - (length l + 2)"
  from assms(3) have "DOMAIN_STR_LEN - 1 = length l + Suc (Suc k)"
    by (simp add: k_def)
  then have "take (DOMAIN_STR_LEN - 1) t = l @ ''$$'' @ take k x"
    by (simp add: t_def)
  with out show ?thesis by simp
qed

theorem double_dollar_kept_witness:
  "CHR ''$'' \<notin> set ''a'' \<and> backslash \<notin> set ''a'' \<and> length ''a'' + 2 < DOMAIN_STR_LEN \<and>
   parse_gen_string (''a'' @ ''$$'' @ ''b${0,2}'') 1 =
     Inr [Literal ''a$$b'', Placeholder 0 2 CHR ''d''] \<and>
   construct_gen_output [Literal ''a$$b'', Placeholder 0 2 CHR ''d''] 7 1 = Inr ''a$$b07'' \<and>
   (\<exists>rest. ''a$$b07'' = ''a'' @ ''$$'' @ rest)"
proof -
  have h: "CHR ''$'' \<notin> set ''a''" "backslash \<notin> set ''a''" "length ''a'' + 2 < DOMAIN_STR_LEN"
    by (simp_all add: backslash_def DOMAIN_STR_LEN_def DOMAIN_LEN_def)
  have p: "parse_gen_string (''a'' @ ''$$'' @ ''b${0,2}'') 1 =
     Inr [Literal ''a$$b'', Placeholder 0 2 CHR ''d'']"
    by (simp add: generate_eval char_eval char_names limits)
  have c: "construct_gen_output [Literal ''a$$b'', Placeholder 0 2 CHR ''d''] 7 1 = Inr ''a$$b07''"
    by (simp add: generate_eval printf_eval char_eval char_names limits)
  from double_dollar_kept [OF h p c] h p c show ?thesis by simp
qed

text \<open>
  C6 (the code at the failing input). The template \<^verbatim>\<open>a$$b\<close> is one literal part with
  both \<^verbatim>\<open>$\<close>, it expands to \<^verbatim>\<open>a$$b\<close>, and the records generated from
  \<^verbatim>\<open>a$$b${0}\<close> have the owners \<^verbatim>\<open>a$$b1.example.com.\<close> and
  \<^verbatim>\<open>a$$b2.example.com.\<close>, with two \<^verbatim>\<open>$\<close> where \<^verbatim>\<open>$$\<close> stands for one. The other
  escape of the character, \<^verbatim>\<open>\$\<close>, does end as a single \<^verbatim>\<open>$\<close>: the records generated
  from \<^verbatim>\<open>a\$b${0}\<close> have the owners \<^verbatim>\<open>a$b1.example.com.\<close> and
  \<^verbatim>\<open>a$b2.example.com.\<close>
\<close>

theorem double_dollar_stays_double:
  "parse_gen_string ''a$$b'' 1 = Inr [Literal ''a$$b''] \<and>
   construct_gen_output [Literal ''a$$b''] 7 1 = Inr ''a$$b'' \<and>
   main ''example.com'' (''$GENERATE 1-2 a$$b${0} A 10.0.0.${0}'' @ [newline]) =
     Inr \<lparr>stdin = [], line_num = 2, start_line_num = 2, diag = [],
          cur_origin = example_com, ttl = 86400,
          owner = \<lparr>stext = ''a$$b2.example.com.'', len = 18, real_len = 18\<rparr>,
          prev_owner = True,
          temp_file = ''+a$$b1.example.com.:10.0.0.1:86400'' @ [newline] @
                      ''+a$$b2.example.com.:10.0.0.2:86400'' @ [newline]\<rparr> \<and>
   main ''example.com''
     (''$GENERATE 1-2 a'' @ [backslash] @ ''$b${0} A 10.0.0.${0}'' @ [newline]) =
     Inr \<lparr>stdin = [], line_num = 2, start_line_num = 2, diag = [],
          cur_origin = example_com, ttl = 86400,
          owner = \<lparr>stext = ''a$b2.example.com.'', len = 17, real_len = 17\<rparr>,
          prev_owner = True,
          temp_file = ''+a$b1.example.com.:10.0.0.1:86400'' @ [newline] @
                      ''+a$b2.example.com.:10.0.0.2:86400'' @ [newline]\<rparr>"
  by (simp add: generate_eval driver_eval tokenizer_eval sanitizer_eval printf_eval char_eval
      char_names limits)
section \<open>Properties of the driver\<close>

text \<open>
  The model on the examples of the specification: the two addresses, the zone of six
  lines and the \<^verbatim>\<open>$GENERATE\<close> directive, with the output lines the specification
  expects.
\<close>

lemma sanitize_ip_examples:
  "sanitize_ip ''127.00000.0.1'' = Some ''127.0.0.1''"
  "sanitize_ip ''1.2.3.256'' = None"
  by (simp_all add: driver_eval printf_eval char_eval)

lemma zone_example:
  "main ''example.com''
     (''$ORIGIN example.com.'' @ [newline] @
      ''$TTL 3600'' @ [newline] @
      ''@  IN  SOA  ns1 hostmaster 1 7200 3600 1209600 3600'' @ [newline] @
      ''@  IN  NS   ns1'' @ [newline] @
      ''ns1 IN A 192.0.2.1'' @ [newline] @
      ''www IN CNAME @'' @ [newline]) =
   Inr \<lparr>stdin = [], line_num = 7, start_line_num = 7, diag = [],
        cur_origin = example_com, ttl = 3600,
        owner = \<lparr>stext = ''www.example.com.'', len = 16, real_len = 16\<rparr>,
        prev_owner = True,
        temp_file =
          ''Zexample.com.:ns1.example.com.:hostmaster.example.com.:1:7200:3600:1209600:3600'' @ [newline] @
          ''&example.com.::ns1.example.com.:3600'' @ [newline] @
          ''+ns1.example.com.:192.0.2.1:3600'' @ [newline] @
          ''Cwww.example.com.:example.com.:3600'' @ [newline]\<rparr>"
  by (simp add: driver_eval tokenizer_eval sanitizer_eval printf_eval char_eval char_names limits)

lemma generate_example:
  "main ''example.com'' (''$GENERATE 1-3 host${0,3,d} A 10.0.0.${0}'' @ [newline]) =
   Inr \<lparr>stdin = [], line_num = 2, start_line_num = 2, diag = [],
        cur_origin = example_com, ttl = 86400,
        owner = \<lparr>stext = ''host003.example.com.'', len = 20, real_len = 20\<rparr>,
        prev_owner = True,
        temp_file =
          ''+host001.example.com.:10.0.0.1:86400'' @ [newline] @
          ''+host002.example.com.:10.0.0.2:86400'' @ [newline] @
          ''+host003.example.com.:10.0.0.3:86400'' @ [newline]\<rparr>"
  by (simp add: generate_eval driver_eval tokenizer_eval sanitizer_eval printf_eval char_eval
      char_names limits)

text \<open>
  Whatever an explicit TTL token parses to, the record keeps it: the only test is on the
  default TTL.
\<close>

lemma rr_ttl_class_takes_any_ttl:
  assumes "str_to_uint (tok ! 1) True = Inr v" and "unat (ttl st) \<le> 2147483646"
  shows "rr_ttl_class tok st = Inr (if strcaseeq (tok ! 2) ''IN'' then 3 else 2, v, st)"
  using assms by (simp add: rr_ttl_class_def uint_warning_def Let_def)

lemma rr_ttl_class_takes_any_ttl_after_class:
  assumes "str_to_uint (tok ! 1) True = Inl e" and "strcaseeq (tok ! 1) ''IN''"
    and "str_to_uint (tok ! 2) True = Inr v" and "unat (ttl st) \<le> 2147483646"
  shows "\<exists>st'. rr_ttl_class tok st = Inr (3, v, st')"
  using assms by (simp add: rr_ttl_class_def Let_def)

text \<open>
  C3 (the code at the failing inputs). A record with the explicit TTL 3000000000, or with
  4294967295 after the class, is not refused: the comparison with 2147483646 is made on
  \<^verbatim>\<open>local_ttl\<close> while it still holds the default TTL. The record is written, and
  \<^verbatim>\<open>%d\<close> prints the TTL as a negative number.
\<close>

theorem explicit_ttl_not_checked:
  "main ''example.com'' (''a 3000000000 A 192.0.2.1'' @ [newline]) =
     Inr \<lparr>stdin = [], line_num = 2, start_line_num = 2, diag = [],
          cur_origin = example_com, ttl = 86400,
          owner = \<lparr>stext = ''a.example.com.'', len = 14, real_len = 14\<rparr>,
          prev_owner = True,
          temp_file = ''+a.example.com.:192.0.2.1:-1294967296'' @ [newline]\<rparr> \<and>
   main ''example.com'' (''a IN 4294967295 A 192.0.2.1'' @ [newline]) =
     Inr \<lparr>stdin = [], line_num = 2, start_line_num = 2, diag = [],
          cur_origin = example_com, ttl = 86400,
          owner = \<lparr>stext = ''a.example.com.'', len = 14, real_len = 14\<rparr>,
          prev_owner = True,
          temp_file = ''+a.example.com.:192.0.2.1:-1'' @ [newline]\<rparr>"
  by (simp add: driver_eval tokenizer_eval sanitizer_eval printf_eval char_eval char_names limits)

text \<open>
  A record whose owner is outside the zone: the warning is printed, nothing is written,
  the function returns 1 and \<^verbatim>\<open>prev_owner\<close> keeps its value, but the static \<^verbatim>\<open>owner\<close>
  now holds the name that was refused.
\<close>

lemma handle_rr_out_of_zone:
  assumes "3 \<le> length tok" and "tok ! 0 \<noteq> '' ''"
    and "qualify_domain (tok ! 0) (Some (cur_origin st)) = Inr ow"
    and "out_of_zone top_origin ow"
  shows "handle_rr tok top_origin st =
         Inr (1, st\<lparr>diag := diag st @ [(''ignoring out-of-zone data'', start_line_num st)],
                   owner := ow\<rparr>)"
  using assms by (simp add: handle_rr_def rr_owner_def and_then_def warning_def Let_def)

text \<open>
  C4 (the code at the failing input). The record of \<^verbatim>\<open>b.other.org.\<close> is outside the zone
  \<^verbatim>\<open>example.com.\<close>: it gets the warning, writes nothing and does not end the run. But
  \<^verbatim>\<open>qualify_domain\<close> has stored its name in the static \<^verbatim>\<open>owner\<close>, over that of the
  record before, and the next record, which inherits its owner, is written under
  \<^verbatim>\<open>b.other.org.\<close>
\<close>

theorem out_of_zone_owner_stored:
  "main ''example.com''
     (''a A 192.0.2.1'' @ [newline] @ ''b.other.org. A 192.0.2.2'' @ [newline] @
      '' A 192.0.2.3'' @ [newline]) =
     Inr \<lparr>stdin = [], line_num = 4, start_line_num = 4,
          diag = [(''ignoring out-of-zone data'', 2)],
          cur_origin = example_com, ttl = 86400,
          owner = \<lparr>stext = ''b.other.org.'', len = 12, real_len = 12\<rparr>,
          prev_owner = True,
          temp_file = ''+a.example.com.:192.0.2.1:86400'' @ [newline] @
                      ''+b.other.org.:192.0.2.3:86400'' @ [newline]\<rparr>"
  by (simp add: driver_eval tokenizer_eval sanitizer_eval printf_eval char_eval char_names limits)

lemma owner_lineI: "owner_line ow before (before @ c # ow @ CHR '':'' # rest)"
  unfolding owner_line_def by blast

lemma txt_rdata_loop_prefix:
  "txt_rdata_loop ts written = Inr written' \<Longrightarrow> \<exists>r. written' = written @ r"
proof (induction ts arbitrary: written)
  case Nil
  then show ?case by simp
next
  case (Cons t ts)
  then show ?case by (fastforce split: sum.splits)
qed

lemma fprintf_fields [simp]:
  "temp_file (fprintf s st) = temp_file st @ s"
  "owner (fprintf s st) = owner st"
  "prev_owner (fprintf s st) = prev_owner st"
  "cur_origin (fprintf s st) = cur_origin st"
  "ttl (fprintf s st) = ttl st"
  "diag (fprintf s st) = diag st"
  by (simp_all add: fprintf_def)

lemma rr_rdata_owner_line:
  assumes "rr_rdata tok next local_ttl st = Inr st'"
  shows "owner st' = owner st \<and> owner_line (stext (owner st)) (temp_file st) (temp_file st')"
proof -
  have tx: "owner_line ow before (before @ written @ tail)"
    if "txt_rdata_loop ts (CHR '':'' # ow @ '':16:'') = Inr written" for ow before written tail ts
  proof -
    from txt_rdata_loop_prefix [OF that] obtain r where "written = CHR '':'' # ow @ '':16:'' @ r" by auto
    then have "before @ written @ tail = before @ CHR '':'' # ow @ CHR '':'' # (''16:'' @ r @ tail)"
      by simp
    then show ?thesis unfolding owner_line_def by blast
  qed
  from assms show ?thesis
    unfolding rr_rdata_def Let_def
    by (auto split: if_splits sum.splits option.splits dest!: and_then_Inr
        intro: owner_lineI tx)
qed


lemma uint_warning_fields [simp]:
  "owner (uint_warning r st) = owner st"
  "temp_file (uint_warning r st) = temp_file st"
  "prev_owner (uint_warning r st) = prev_owner st"
  by (simp_all add: uint_warning_def warning_def split: sum.splits uint_err.splits)

lemma rr_ttl_class_fields:
  assumes "rr_ttl_class tok st = Inr (next, local_ttl, st')"
  shows "owner st' = owner st \<and> temp_file st' = temp_file st"
  using assms
  by (auto simp: rr_ttl_class_def Let_def split: if_splits sum.splits)

lemma blank_is_no_directive:
  "\<not> strcaseeq '' '' ''$ORIGIN''" "\<not> strcaseeq '' '' ''$TTL''"
  "\<not> strcaseeq '' '' ''$GENERATE''" "\<not> strcaseeq '' '' ''$INCLUDE''"
  "\<not> next_is '' '' CHR ''$''"
  by (simp_all add: strcaseeq_def next_is_def)

lemma handle_entry_blank:
  assumes "tok \<noteq> []" and "tok ! 0 = '' ''" and "prev_owner st"
  shows "handle_entry tok top_origin st =
         (if length tok < 3 then fatal ''RR does not have enough tokens'' st
          else and_then (rr_ttl_class tok st) (\<lambda>(next, local_ttl, st2).
               and_then (rr_rdata tok next local_ttl st2) (\<lambda>st3. Inr (0, st3))))"
  using assms
  by (simp add: handle_entry.simps [of tok] blank_is_no_directive handle_rr_def rr_owner_def
      and_then_def)

text \<open>
  C9. For an entry whose first token is the blank-owner token, when a previous owner is
  established, \<^verbatim>\<open>handle_entry\<close> does not look at the top-level origin at all: its result
  is the same for any two top-level origins. If the record is accepted, the function
  returns 0, the stored owner is unchanged, and the text written starts with the type
  character, the stored owner and a colon, whatever the stored owner is.
\<close>

theorem blank_owner_not_zone_checked:
  assumes "tok \<noteq> []" and "tok ! 0 = '' ''" and "prev_owner st"
  shows "handle_entry tok top_origin st = handle_entry tok top_origin' st \<and>
         (\<forall>r st'. handle_entry tok top_origin st = Inr (r, st') \<longrightarrow>
            r = 0 \<and> owner st' = owner st \<and>
            owner_line (stext (owner st)) (temp_file st) (temp_file st'))"
proof -
  have same: "handle_entry tok top_origin st = handle_entry tok top_origin' st"
    by (simp only: handle_entry_blank [OF assms])
  have emitted: "r = 0 \<and> owner st' = owner st \<and>
        owner_line (stext (owner st)) (temp_file st) (temp_file st')"
    if "handle_entry tok top_origin st = Inr (r, st')" for r st'
  proof -
    from that obtain nxt local_ttl st2 where
      t: "rr_ttl_class tok st = Inr (nxt, local_ttl, st2)"
      and d: "rr_rdata tok nxt local_ttl st2 = Inr st'" and r: "r = 0"
      unfolding handle_entry_blank [OF assms]
      by (auto split: if_splits prod.splits dest!: and_then_Inr)
    from rr_ttl_class_fields [OF t] rr_rdata_owner_line [OF d] r show ?thesis by simp
  qed
  from same emitted show ?thesis by blast
qed

theorem blank_owner_not_zone_checked_witness:
  "['' '', ''A'', ''192.0.2.3''] \<noteq> [] \<and> ['' '', ''A'', ''192.0.2.3''] ! 0 = '' '' \<and>
   prev_owner outside_owner_state \<and>
   out_of_zone example_com (owner outside_owner_state) \<and>
   handle_entry ['' '', ''A'', ''192.0.2.3''] example_com outside_owner_state =
     Inr (0, outside_owner_state\<lparr>temp_file := ''+b.other.org.:192.0.2.3:86400'' @ [newline]\<rparr>) \<and>
   owner_line ''b.other.org.'' [] (''+b.other.org.:192.0.2.3:86400'' @ [newline])"
proof -
  let ?tok = "['' '', ''A'', ''192.0.2.3'']"
  let ?st' = "outside_owner_state\<lparr>temp_file := ''+b.other.org.:192.0.2.3:86400'' @ [newline]\<rparr>"
  have h: "?tok \<noteq> []" "?tok ! 0 = '' ''" "prev_owner outside_owner_state"
    by (simp_all add: outside_owner_state_def)
  have z: "out_of_zone example_com (owner outside_owner_state)"
    by (simp add: outside_owner_state_def out_of_zone_def example_com_def char_eval)
  have e: "handle_entry ?tok example_com outside_owner_state = Inr (0, ?st')"
    by (simp add: outside_owner_state_def driver_eval sanitizer_eval printf_eval char_eval
        char_names limits)
  from blank_owner_not_zone_checked [OF h, of example_com example_com] e
  have "owner_line (stext (owner outside_owner_state)) (temp_file outside_owner_state)
          (temp_file ?st')"
    by blast
  then have "owner_line ''b.other.org.'' [] (''+b.other.org.:192.0.2.3:86400'' @ [newline])"
    by (simp add: outside_owner_state_def initial_state_def)
  with h z e show ?thesis by simp
qed

end
